theory Spec2Isabelle
  imports Complex_Main "HOL-Library.Sublist" "HOL-Library.Log_Nat"
begin

section \<open>Python strings and integers as used by parse\_benchmarks.py\<close>

text \<open>
  A Python \<open>str\<close> is modelled as the list of its code points, restricted to the code
  points U+0000 .. U+00FF that \<^typ>\<open>char\<close> can hold. Python integers are unbounded:
  \<^typ>\<open>int\<close>. The optional limit on the number of digits in a decimal conversion
  (\<open>sys.set_int_max_str_digits\<close>) is taken to be switched off.
\<close>

fun find_first :: "string \<Rightarrow> string \<Rightarrow> nat option" where
  "find_first sub [] = (if sub = [] then Some 0 else None)"
| "find_first sub (c # cs) =
     (if prefix sub (c # cs) then Some 0 else map_option Suc (find_first sub cs))"

definition py_find :: "string \<Rightarrow> string \<Rightarrow> nat \<Rightarrow> int" where
  \<comment> \<open>\<open>s.find(sub, start)\<close>: the lowest index at or after \<open>start\<close>, or -1.\<close>
  "py_find s sub start =
     (if length s < start then - 1
      else case find_first sub (drop start s) of
             None \<Rightarrow> - 1
           | Some k \<Rightarrow> int (start + k))"

definition py_index :: "nat \<Rightarrow> int \<Rightarrow> nat" where
  \<comment> \<open>A slice bound: negative bounds count from the end, all bounds are clipped.\<close>
  "py_index n i = (if i < 0 then nat (int n + i) else min (nat i) n)"

definition py_slice :: "string \<Rightarrow> int \<Rightarrow> int \<Rightarrow> string" where
  \<comment> \<open>\<open>s[i:j]\<close>\<close>
  "py_slice s i j =
     (let a = py_index (length s) i; b = py_index (length s) j
      in take (b - a) (drop a s))"

definition py_slice_from :: "string \<Rightarrow> int \<Rightarrow> string" where
  \<comment> \<open>\<open>s[i:]\<close>\<close>
  "py_slice_from s i = drop (py_index (length s) i) s"

definition py_slice_to :: "string \<Rightarrow> int \<Rightarrow> string" where
  \<comment> \<open>\<open>s[:j]\<close>\<close>
  "py_slice_to s j = take (py_index (length s) j) s"

definition py_strip :: "char \<Rightarrow> string \<Rightarrow> string" where
  \<comment> \<open>\<open>s.strip(c)\<close> for a one-character argument\<close>
  "py_strip c s = rev (dropWhile (\<lambda>x. x = c) (rev (dropWhile (\<lambda>x. x = c) s)))"

definition int_space :: "char \<Rightarrow> bool" where
  \<comment> \<open>the white space that \<open>int()\<close> skips around a literal\<close>
  "int_space c = (c \<in> set [CHR 0x09, CHR 0x0A, CHR 0x0B, CHR 0x0C, CHR 0x0D, CHR 0x20,
                             CHR 0x85, CHR 0xA0])"

definition digit_value :: "char \<Rightarrow> int option" where
  "digit_value c =
     (let n = (of_char c :: int)
      in if 48 \<le> n \<and> n \<le> 57 then Some (n - 48)
         else if 97 \<le> n \<and> n \<le> 122 then Some (n - 87)
         else if 65 \<le> n \<and> n \<le> 90 then Some (n - 55)
         else None)"

fun digits_acc :: "int \<Rightarrow> int \<Rightarrow> string \<Rightarrow> int option" where
  "digits_acc base acc [] = Some acc"
| "digits_acc base acc (c # cs) =
     (if c = CHR ''_''
      then (case cs of
              [] \<Rightarrow> None
            | d # ds \<Rightarrow> if d = CHR ''_'' then None else digits_acc base acc cs)
      else (case digit_value c of
              None \<Rightarrow> None
            | Some v \<Rightarrow> if v < base then digits_acc base (acc * base + v) cs else None))"

definition parse_digits :: "int \<Rightarrow> string \<Rightarrow> int option" where
  \<comment> \<open>at least one digit; single underscores between digits only\<close>
  "parse_digits base body =
     (case body of
        [] \<Rightarrow> None
      | c # cs \<Rightarrow> if c = CHR ''_'' then None else digits_acc base 0 body)"

definition strip_radix :: "int \<Rightarrow> string \<Rightarrow> string" where
  \<comment> \<open>the prefix \<open>0x\<close>, \<open>0o\<close> or \<open>0b\<close> of the base, and one underscore after it\<close>
  "strip_radix base s =
     (case s of
        z # x # rest \<Rightarrow>
          if z = CHR ''0'' \<and>
             (base = 16 \<and> (x = CHR ''x'' \<or> x = CHR ''X'') \<or>
              base = 8 \<and> (x = CHR ''o'' \<or> x = CHR ''O'') \<or>
              base = 2 \<and> (x = CHR ''b'' \<or> x = CHR ''B''))
          then (case rest of
                  u # rest' \<Rightarrow> if u = CHR ''_'' then rest' else rest
                | [] \<Rightarrow> rest)
          else s
      | _ \<Rightarrow> s)"

definition py_int :: "int \<Rightarrow> string \<Rightarrow> int option" where
  \<comment> \<open>\<open>int(s, base)\<close>; \<open>None\<close> is \<open>ValueError\<close>\<close>
  "py_int base s =
     (let t = rev (dropWhile int_space (rev (dropWhile int_space s)));
          (neg, u) = (case t of
                        [] \<Rightarrow> (False, t)
                      | c # cs \<Rightarrow> if c = CHR ''+'' then (False, cs)
                                  else if c = CHR ''-'' then (True, cs)
                                  else (False, t))
      in case parse_digits base (strip_radix base u) of
           None \<Rightarrow> None
         | Some n \<Rightarrow> Some (if neg then - n else n))"

section \<open>The metric extractors\<close>

text \<open>
  The ten \<open>parse_*\<close> functions of the script have the same body; they differ in the
  marker, in the terminator searched after it, in the base handed to \<open>int\<close> and in the
  value returned when the marker is missing or \<open>int\<close> raises \<open>ValueError\<close>.
  \<open>parse_number\<close> is that body.
\<close>

definition parse_number :: "string \<Rightarrow> string \<Rightarrow> int \<Rightarrow> int \<Rightarrow> string \<Rightarrow> int" where
  "parse_number start_string terminator base dflt stdout =
     (let start_index = py_find stdout start_string 0
      in if start_index = - 1 then dflt
         else
           let start_index = start_index + int (length start_string);
               end_index = py_find stdout terminator (nat start_index);
               instructions_str = py_strip (CHR '' '') (py_slice stdout start_index end_index)
           in case py_int base instructions_str of
                Some instructions \<Rightarrow> instructions
              | None \<Rightarrow> dflt)"

definition get_report_start :: "string \<Rightarrow> int" where
  "get_report_start stdout =
     (let start_string = ''Program exit with code: '';
          start_index = py_find stdout start_string 0
      in if start_index = - 1 then 0 else start_index)"

definition parse_status :: "string \<Rightarrow> int" where
  "parse_status stdout = parse_number ''Program exit with code: '' ''('' 16 1 stdout"

definition parse_retired_instructions :: "string \<Rightarrow> int" where
  "parse_retired_instructions stdout =
     parse_number ''retired instructions:'' [CHR 0x0A] 10 0 stdout"

definition parse_cycles :: "string \<Rightarrow> int" where
  "parse_cycles stdout = parse_number ''total CPU cycles: '' [CHR 0x0A] 10 0 stdout"

definition parse_jumps :: "string \<Rightarrow> int" where
  "parse_jumps stdout = parse_number ''- jumps: '' ''('' 10 0 stdout"

definition parse_branches :: "string \<Rightarrow> int" where
  "parse_branches stdout = parse_number ''- branches:'' ''('' 10 0 stdout"

definition parse_loads :: "string \<Rightarrow> int" where
  "parse_loads stdout = parse_number ''- loads:'' ''('' 10 0 stdout"

definition parse_stores :: "string \<Rightarrow> int" where
  "parse_stores stdout = parse_number ''- stores:'' ''('' 10 0 stdout"

definition parse_inst_fetches :: "string \<Rightarrow> int" where
  "parse_inst_fetches stdout = parse_number ''- instruction fetches:'' ''('' 10 0 stdout"

definition parse_writes :: "string \<Rightarrow> int" where
  "parse_writes stdout = parse_number ''- write requests: '' ''('' 10 0 stdout"

definition parse_reads :: "string \<Rightarrow> int" where
  "parse_reads stdout = parse_number ''- read requests:'' ''('' 10 0 stdout"

section \<open>Values, true division and formatting\<close>

datatype error = ZeroDivisionError | OverflowError | KeyError | Unmodelled

definition bind_err :: "error + 'a \<Rightarrow> ('a \<Rightarrow> error + 'b) \<Rightarrow> error + 'b" where
  "bind_err m f = (case m of Inl e \<Rightarrow> Inl e | Inr x \<Rightarrow> f x)"

text \<open>
  A Python \<open>float\<close> is an IEEE 754 double. The script produces floats only by dividing
  two integers, so a float is never an infinity or a NaN here: it is a sign and a
  magnitude, the magnitude being the rational number that the double denotes.
\<close>

datatype pyfloat = Dbl (negative: bool) (magnitude: rat)

datatype pyval = PyBool bool | PyInt int | PyFloat pyfloat

definition round_half_even_div :: "int \<Rightarrow> int \<Rightarrow> int" where
  \<comment> \<open>the integer nearest to \<open>n / d\<close>, ties to the even one\<close>
  "round_half_even_div n d =
     (let q = n div d; r = n mod d
      in if 2 * r < d then q
         else if d < 2 * r then q + 1
         else if even q then q else q + 1)"

definition quot_exponent :: "int \<Rightarrow> int \<Rightarrow> int" where
  \<comment> \<open>\<open>\<lfloor>log\<^sub>2 (n / d)\<rfloor>\<close> for positive \<open>n\<close> and \<open>d\<close>\<close>
  "quot_exponent n d =
     (let k = bitlen n - bitlen d
      in if (if 0 \<le> k then d * 2 ^ nat k \<le> n else d \<le> n * 2 ^ nat (- k)) then k else k - 1)"

definition py_truediv :: "int \<Rightarrow> int \<Rightarrow> error + pyfloat" where
  \<comment> \<open>\<open>a / b\<close> on two \<open>int\<close>s: the double nearest to the quotient (ties to even, 53-bit
      significand, least exponent -1022), \<open>OverflowError\<close> when that is beyond the largest
      double, a signed zero when the quotient is zero or rounds to zero\<close>
  "py_truediv a b =
     (if b = 0 then Inl ZeroDivisionError
      else
        let negate = ((a < 0) \<noteq> (b < 0))
        in if a = 0 then Inr (Dbl negate 0)
           else
             let n = \<bar>a\<bar>; d = \<bar>b\<bar>;
                 e = quot_exponent n d;
                 s = max e (- 1022) - 52;
                 m = (if 0 \<le> s then round_half_even_div n (d * 2 ^ nat s)
                      else round_half_even_div (n * 2 ^ nat (- s)) d)
             in if 1024 \<le> e \<or> (e = 1023 \<and> m = 2 ^ 53) then Inl OverflowError
                else Inr (Dbl negate
                           (if 0 \<le> s then of_int (m * 2 ^ nat s)
                            else of_int m / of_int (2 ^ nat (- s)))))"

definition digit_char :: "int \<Rightarrow> char" where
  "digit_char n = char_of (48 + n)"

function str_nat :: "int \<Rightarrow> string" where
  \<comment> \<open>the decimal digits of a non-negative integer\<close>
  "str_nat n = (if n < 10 then [digit_char n] else str_nat (n div 10) @ [digit_char (n mod 10)])"
  by pat_completeness auto
termination
  by (relation "measure nat") auto

declare str_nat.simps [simp del]

definition str_int :: "int \<Rightarrow> string" where
  \<comment> \<open>\<open>str(i)\<close>, which is also \<open>f"{i}"\<close>\<close>
  "str_int i = (if i < 0 then CHR ''-'' # str_nat (- i) else str_nat i)"

definition str_bool :: "bool \<Rightarrow> string" where
  "str_bool b = (if b then ''True'' else ''False'')"

definition py_str :: "pyval \<Rightarrow> error + string" where
  \<comment> \<open>\<open>f"{v}"\<close>. The script formats only \<open>bool\<close>s and \<open>int\<close>s this way; the \<open>repr\<close> of a
      float is not modelled.\<close>
  "py_str v =
     (case v of
        PyBool b \<Rightarrow> Inr (str_bool b)
      | PyInt i \<Rightarrow> Inr (str_int i)
      | PyFloat x \<Rightarrow> Inl Unmodelled)"

definition format_d :: "nat \<Rightarrow> int \<Rightarrow> string" where
  \<comment> \<open>\<open>f"{i:wd}"\<close>: right-aligned in at least \<open>w\<close> columns\<close>
  "format_d w i = replicate (w - length (str_int i)) (CHR '' '') @ str_int i"

definition format_s :: "nat \<Rightarrow> string \<Rightarrow> string" where
  \<comment> \<open>\<open>f"{s:w}"\<close>: left-aligned in at least \<open>w\<close> columns\<close>
  "format_s w s = s @ replicate (w - length s) (CHR '' '')"

definition round_half_even :: "rat \<Rightarrow> int" where
  "round_half_even y =
     (let f = \<lfloor>y\<rfloor>; d = y - of_int f
      in if d < 1 / 2 then f
         else if 1 / 2 < d then f + 1
         else if even f then f else f + 1)"

definition format_2f_float :: "pyfloat \<Rightarrow> string" where
  \<comment> \<open>\<open>f"{x: .2f}"\<close> on a float: a blank or a minus sign, then the value rounded to two
      decimals (ties to even)\<close>
  "format_2f_float x =
     (let h = round_half_even (magnitude x * 100)
      in (if negative x then ''-'' else '' '') @ str_nat (h div 100) @ ''.'' @
         [digit_char (h mod 100 div 10), digit_char (h mod 10)])"

definition format_2f :: "pyval \<Rightarrow> error + string" where
  \<comment> \<open>\<open>f"{v: .2f}"\<close>; an \<open>int\<close> (and a \<open>bool\<close>, which is one) is first converted to a
      float, with the rounding and the \<open>OverflowError\<close> of a division by 1\<close>
  "format_2f v =
     (case v of
        PyFloat x \<Rightarrow> Inr (format_2f_float x)
      | PyInt i \<Rightarrow> bind_err (py_truediv i 1) (\<lambda>x. Inr (format_2f_float x))
      | PyBool b \<Rightarrow> bind_err (py_truediv (if b then 1 else 0) 1) (\<lambda>x. Inr (format_2f_float x)))"

definition truthy :: "pyval \<Rightarrow> bool" where
  "truthy v =
     (case v of
        PyBool b \<Rightarrow> b
      | PyInt i \<Rightarrow> i \<noteq> 0
      | PyFloat x \<Rightarrow> magnitude x \<noteq> 0)"

section \<open>The results table\<close>

text \<open>
  A row is a \<open>dict\<close> from metric names to values. The table is a \<open>dict\<close> from file names
  to rows whose order is observed (the console summary and the CSV file follow it), so it
  is an association list with distinct keys in insertion order.
\<close>

type_synonym metricset = "string \<rightharpoonup> pyval"

type_synonym table = "(string \<times> metricset) list"

definition init_table :: table where
  "init_table = []"

fun table_put :: "table \<Rightarrow> string \<Rightarrow> metricset \<Rightarrow> table" where
  \<comment> \<open>\<open>table[k] = r\<close>: a present key keeps its place, a new key goes last\<close>
  "table_put [] k r = [(k, r)]"
| "table_put ((k', r') # rest) k r =
     (if k' = k then (k, r) # rest else (k', r') # table_put rest k r)"

definition table_get :: "table \<Rightarrow> string \<Rightarrow> error + metricset" where
  \<comment> \<open>\<open>table[k]\<close>\<close>
  "table_get t k = (case map_of t k of None \<Rightarrow> Inl KeyError | Some r \<Rightarrow> Inr r)"

definition row_get :: "metricset \<Rightarrow> string \<Rightarrow> error + pyval" where
  \<comment> \<open>\<open>row[k]\<close>\<close>
  "row_get r k = (case r k of None \<Rightarrow> Inl KeyError | Some v \<Rightarrow> Inr v)"

definition py_add :: "pyval \<Rightarrow> pyval \<Rightarrow> error + pyval" where
  \<comment> \<open>\<open>v + w\<close>; the script adds \<open>int\<close>s only\<close>
  "py_add v w =
     (case (v, w) of
        (PyInt i, PyInt j) \<Rightarrow> Inr (PyInt (i + j))
      | _ \<Rightarrow> Inl Unmodelled)"

definition py_div :: "pyval \<Rightarrow> pyval \<Rightarrow> error + pyval" where
  \<comment> \<open>\<open>v / w\<close>; the script divides \<open>int\<close>s only\<close>
  "py_div v w =
     (case (v, w) of
        (PyInt i, PyInt j) \<Rightarrow> bind_err (py_truediv i j) (\<lambda>x. Inr (PyFloat x))
      | _ \<Rightarrow> Inl Unmodelled)"

text \<open>
  \<open>update_table\<close> assigns the fourteen entries of \<open>table[benchmark]\<close> one after the
  other. \<open>table[benchmark]\<close> is the same \<open>dict\<close> object throughout, so the assignments
  are modelled on that row (\<open>fill_metrics\<close>), which is then put back.
\<close>

definition fill_metrics :: "metricset \<Rightarrow> string \<Rightarrow> error + metricset" where
  "fill_metrics row output_log =
     (let row = row(''status'' \<mapsto> PyBool (parse_status output_log = 0));
          row = row(''instructions'' \<mapsto> PyInt (parse_retired_instructions output_log));
          row = row(''cycles'' \<mapsto> PyInt (parse_cycles output_log))
      in
      bind_err (row_get row ''cycles'') (\<lambda>c.
      bind_err
        (if truthy c
         then bind_err (row_get row ''instructions'') (\<lambda>i.
              bind_err (row_get row ''cycles'') (\<lambda>c'. py_div i c'))
         else Inr (PyInt 0)) (\<lambda>ipc.
      let row = row(''ipc'' \<mapsto> ipc);
          row = row(''jumps'' \<mapsto> PyInt (parse_jumps output_log));
          row = row(''branches'' \<mapsto> PyInt (parse_branches output_log))
      in
      bind_err (row_get row ''jumps'') (\<lambda>j.
      bind_err (row_get row ''branches'') (\<lambda>b.
      bind_err (py_add j b) (\<lambda>bj.
      let row = row(''branch/jump'' \<mapsto> bj);
          row = row(''loads'' \<mapsto> PyInt (parse_loads output_log));
          row = row(''stores'' \<mapsto> PyInt (parse_stores output_log))
      in
      bind_err (row_get row ''loads'') (\<lambda>l.
      bind_err (row_get row ''stores'') (\<lambda>s.
      bind_err (py_add l s) (\<lambda>ls.
      let row = row(''load/store'' \<mapsto> ls);
          row = row(''instr_fetches'' \<mapsto> PyInt (parse_inst_fetches output_log));
          row = row(''read_req'' \<mapsto> PyInt (parse_reads output_log));
          row = row(''write_req'' \<mapsto> PyInt (parse_writes output_log))
      in
      bind_err (row_get row ''instr_fetches'') (\<lambda>f.
      bind_err (row_get row ''write_req'') (\<lambda>w.
      bind_err (row_get row ''read_req'') (\<lambda>r.
      bind_err (py_add f w) (\<lambda>fw.
      bind_err (py_add fw r) (\<lambda>m.
      Inr (row(''memory_req'' \<mapsto> m))))))))))))))))"

definition update_table :: "table \<Rightarrow> string \<Rightarrow> string \<Rightarrow> error + table" where
  "update_table table benchmark output_log =
     (let table = (if benchmark \<notin> set (map fst table)
                   then table_put table benchmark Map.empty else table)
      in bind_err (table_get table benchmark) (\<lambda>row.
         bind_err (fill_metrics row output_log) (\<lambda>row.
         Inr (table_put table benchmark row))))"

section \<open>The CSV file\<close>

definition field_str :: "metricset \<Rightarrow> string \<Rightarrow> string \<Rightarrow> error + string" where
  \<comment> \<open>\<open>f"{results[k]}"\<close> followed by a separator\<close>
  "field_str results k sep =
     bind_err (row_get results k) (\<lambda>v. bind_err (py_str v) (\<lambda>s. Inr (s @ sep)))"

definition field_2f :: "metricset \<Rightarrow> string \<Rightarrow> string \<Rightarrow> error + string" where
  \<comment> \<open>\<open>f"{results[k] : .2f}"\<close> followed by a separator\<close>
  "field_2f results k sep =
     bind_err (row_get results k) (\<lambda>v. bind_err (format_2f v) (\<lambda>s. Inr (s @ sep)))"

fun write_all :: "(error + string) list \<Rightarrow> error + string" where
  \<comment> \<open>a sequence of \<open>file.write\<close> calls: the text written, or the first exception\<close>
  "write_all [] = Inr []"
| "write_all (w # ws) =
     (case w of
        Inl e \<Rightarrow> Inl e
      | Inr s \<Rightarrow> (case write_all ws of Inl e \<Rightarrow> Inl e | Inr t \<Rightarrow> Inr (s @ t)))"

definition csv_header :: string where
  "csv_header =
     ''Benchmark,Status,Instructions,Cycles,IPC,Jumps,Branches,Branch/Jump Instructions,'' @
     ''Loads,Stores,Load/Store Instructions,Instruction fetches,Write Requests,'' @
     ''Read Requests,Memory Requests'' @ [CHR 0x0A]"

definition csv_row :: "string \<Rightarrow> metricset \<Rightarrow> error + string" where
  "csv_row benchmark results =
     write_all
       [Inr (py_slice_to benchmark (- 4) @ '',''),
        field_str results ''status'' '','',
        field_str results ''instructions'' '','',
        field_str results ''cycles'' '','',
        field_2f results ''ipc'' '','',
        field_str results ''jumps'' '','',
        field_str results ''branches'' '','',
        field_str results ''branch/jump'' '','',
        field_str results ''loads'' '','',
        field_str results ''stores'' '','',
        field_str results ''load/store'' '','',
        field_str results ''instr_fetches'' '','',
        field_str results ''read_req'' '','',
        field_str results ''write_req'' '','',
        field_str results ''memory_req'' [CHR 0x0A]]"

definition print_table_to_file_csv :: "table \<Rightarrow> error + string" where
  \<comment> \<open>the contents of \<open>output/benchmarks.csv\<close> under the run path\<close>
  "print_table_to_file_csv table =
     write_all (Inr csv_header # map (\<lambda>(benchmark, results). csv_row benchmark results) table)"

section \<open>The script\<close>

text \<open>
  The model of the script starts after the command line has been read and the log
  directory listed: \<open>files\<close> is the directory listing, each name with the text that
  reading the file returns, and \<open>PATH\<close> is the run path. The result is the console
  output, the exit code and, when it is written, the CSV file; an exception that nothing
  catches is \<open>Inl\<close>.
\<close>

definition BENCH_WHITE_LISTE :: "string list" where
  "BENCH_WHITE_LISTE = [''cubic'', ''nbody'', ''nettle-sha256'', ''st'', ''ud'']"

record run =
  stats :: table
  correctly_ex :: int
  console :: string

record outcome =
  exit_code :: int
  stdout :: string
  csv_file :: "string option"

definition loop_body :: "run \<Rightarrow> int \<Rightarrow> string \<Rightarrow> string \<Rightarrow> error + run" where
  "loop_body st i b contents =
     (let output_log = contents;
          start_report = get_report_start output_log;
          output_log = py_slice_from output_log start_report
      in bind_err (update_table (stats st) b output_log) (\<lambda>stats'.
         bind_err (table_get stats' b) (\<lambda>row.
         bind_err (row_get row ''status'') (\<lambda>status.
         bind_err (row_get row ''ipc'') (\<lambda>ipc.
         bind_err (format_2f ipc) (\<lambda>ipc_str.
         if truthy status
         then Inr \<lparr>stats = stats', correctly_ex = correctly_ex st + 1,
                   console = console st @
                     format_d 4 (i + 1) @ '') '' @ format_s 15 (py_slice_to b (- 4)) @ '': '' @
                     [CHR 0x1B] @ ''[92mSUCCESS'' @ [CHR 0x1B] @ ''[00m (IPC='' @ ipc_str @
                     '')'' @ [CHR 0x0A]\<rparr>
         else Inr \<lparr>stats = stats', correctly_ex = correctly_ex st,
                   console = console st @
                     format_d 4 i @ '') '' @ format_s 15 (py_slice_to b (- 4)) @ '': '' @
                     [CHR 0x1B] @ ''[91mFAILURE'' @ [CHR 0x1B] @ ''[00m (IPC='' @ ipc_str @
                     '')'' @ [CHR 0x0A]\<rparr>))))))"

fun main_loop :: "run \<Rightarrow> int \<Rightarrow> (string \<times> string) list \<Rightarrow> error + run" where
  \<comment> \<open>\<open>for i, b in enumerate(benchmarks)\<close>\<close>
  "main_loop st i [] = Inr st"
| "main_loop st i ((b, contents) # rest) =
     (case loop_body st i b contents of
        Inl e \<Rightarrow> Inl e
      | Inr st' \<Rightarrow> main_loop st' (i + 1) rest)"

fun gate_statuses :: "table \<Rightarrow> error + bool list" where
  \<comment> \<open>\<open>[s["status"] for b, s in stats.items() if b[:-4] not in BENCH_WHITE_LISTE]\<close>,
      each entry as \<open>all\<close> reads it\<close>
  "gate_statuses [] = Inr []"
| "gate_statuses ((b, s) # rest) =
     (if py_slice_to b (- 4) \<notin> set BENCH_WHITE_LISTE
      then (case row_get s ''status'' of
              Inl e \<Rightarrow> Inl e
            | Inr v \<Rightarrow> (case gate_statuses rest of
                          Inl e \<Rightarrow> Inl e
                        | Inr vs \<Rightarrow> Inr (truthy v # vs)))
      else gate_statuses rest)"

fun failed_tests :: "string \<Rightarrow> table \<Rightarrow> error + string" where
  \<comment> \<open>the loop that extends \<open>benchmarks_fail\<close>\<close>
  "failed_tests benchmarks_fail [] = Inr benchmarks_fail"
| "failed_tests benchmarks_fail ((b, s) # rest) =
     (if py_slice_to b (- 4) \<notin> set BENCH_WHITE_LISTE
      then (case row_get s ''status'' of
              Inl e \<Rightarrow> Inl e
            | Inr v \<Rightarrow>
                if \<not> truthy v
                then failed_tests (benchmarks_fail @ '', '' @ py_slice_to b (- 4)) rest
                else failed_tests benchmarks_fail rest)
      else failed_tests benchmarks_fail rest)"

definition main :: "string \<Rightarrow> (string \<times> string) list \<Rightarrow> error + outcome" where
  "main PATH files =
     bind_err (main_loop \<lparr>stats = init_table, correctly_ex = 0,
                          console = ''Benchmark summary:'' @ [CHR 0x0A]\<rparr> 0 files) (\<lambda>st.
     let out = console st @ ''Correctly executed testbenches '' @ str_int (correctly_ex st) @
                 '' out of '' @ str_int (int (length (stats st))) @ ''.'' @ [CHR 0x0A]
     in bind_err (gate_statuses (stats st)) (\<lambda>statuses.
        if \<not> list_all id statuses
        then
          let out = out @ [CHR 0x1B] @ ''[91mFailed tests: ''
          in bind_err (failed_tests [] (stats st)) (\<lambda>benchmarks_fail.
             let benchmarks_fail = py_slice_from benchmarks_fail 2 @ ''.'' @ [CHR 0x1B] @ ''[00m''
             in Inr \<lparr>exit_code = 1, stdout = out @ benchmarks_fail @ [CHR 0x0A],
                     csv_file = None\<rparr>)
        else
          let out = out @ ''Saving the csv report to '' @ PATH @ ''/output.'' @ [CHR 0x0A]
          in bind_err (print_table_to_file_csv (stats st)) (\<lambda>csv.
             Inr \<lparr>exit_code = 0, stdout = out, csv_file = Some csv\<rparr>)))"

section \<open>Notions used in the statements\<close>

definition occurs_at :: "string \<Rightarrow> string \<Rightarrow> nat \<Rightarrow> bool" where
  \<comment> \<open>\<open>sub\<close> occurs in \<open>s\<close> at index \<open>k\<close>\<close>
  "occurs_at sub s k = (k \<le> length s \<and> prefix sub (drop k s))"

definition absent :: "string \<Rightarrow> string \<Rightarrow> bool" where
  \<comment> \<open>\<open>sub\<close> occurs nowhere in \<open>s\<close>\<close>
  "absent sub s = list_all (\<lambda>k. \<not> occurs_at sub s k) [0..<Suc (length s)]"

definition first_at :: "string \<Rightarrow> string \<Rightarrow> nat \<Rightarrow> bool" where
  \<comment> \<open>the first occurrence of \<open>sub\<close> in \<open>s\<close> is at index \<open>k\<close>\<close>
  "first_at sub s k = (occurs_at sub s k \<and> list_all (\<lambda>j. \<not> occurs_at sub s j) [0..<k])"

definition status_marker :: string where
  "status_marker = ''Program exit with code: ''"

definition report :: "string \<Rightarrow> string" where
  \<comment> \<open>the text that the script hands to \<open>update_table\<close> for a log\<close>
  "report contents = py_slice_from contents (get_report_start contents)"

datatype metric =
  Status | Instructions | Cycles | Jumps | Branches | Loads | Stores | Instr_fetches |
  Write_req | Read_req

fun extract_metric :: "metric \<Rightarrow> string \<Rightarrow> int" where
  "extract_metric Status = parse_status"
| "extract_metric Instructions = parse_retired_instructions"
| "extract_metric Cycles = parse_cycles"
| "extract_metric Jumps = parse_jumps"
| "extract_metric Branches = parse_branches"
| "extract_metric Loads = parse_loads"
| "extract_metric Stores = parse_stores"
| "extract_metric Instr_fetches = parse_inst_fetches"
| "extract_metric Write_req = parse_writes"
| "extract_metric Read_req = parse_reads"

fun metric_marker :: "metric \<Rightarrow> string" where
  "metric_marker Status = ''Program exit with code: ''"
| "metric_marker Instructions = ''retired instructions:''"
| "metric_marker Cycles = ''total CPU cycles: ''"
| "metric_marker Jumps = ''- jumps: ''"
| "metric_marker Branches = ''- branches:''"
| "metric_marker Loads = ''- loads:''"
| "metric_marker Stores = ''- stores:''"
| "metric_marker Instr_fetches = ''- instruction fetches:''"
| "metric_marker Write_req = ''- write requests: ''"
| "metric_marker Read_req = ''- read requests:''"

fun metric_terminator :: "metric \<Rightarrow> string" where
  "metric_terminator Instructions = [CHR 0x0A]"
| "metric_terminator Cycles = [CHR 0x0A]"
| "metric_terminator m = ''(''"

fun metric_base :: "metric \<Rightarrow> int" where
  "metric_base Status = 16"
| "metric_base m = 10"

fun metric_default :: "metric \<Rightarrow> int" where
  "metric_default Status = 1"
| "metric_default m = 0"

fun metric_key :: "metric \<Rightarrow> string" where
  \<comment> \<open>the name of the metric in a row\<close>
  "metric_key Status = ''status''"
| "metric_key Instructions = ''instructions''"
| "metric_key Cycles = ''cycles''"
| "metric_key Jumps = ''jumps''"
| "metric_key Branches = ''branches''"
| "metric_key Loads = ''loads''"
| "metric_key Stores = ''stores''"
| "metric_key Instr_fetches = ''instr_fetches''"
| "metric_key Write_req = ''write_req''"
| "metric_key Read_req = ''read_req''"

definition number_or :: "int \<Rightarrow> int \<Rightarrow> string \<Rightarrow> int" where
  \<comment> \<open>the text between marker and terminator, trimmed of blanks and read in the base, or
      the default when it is no integer literal\<close>
  "number_or b d txt = (case py_int b (py_strip (CHR '' '') txt) of Some v \<Rightarrow> v | None \<Rightarrow> d)"

definition cell :: "table \<Rightarrow> string \<Rightarrow> string \<Rightarrow> pyval option" where
  \<comment> \<open>the entry \<open>k\<close> of the row of \<open>b\<close>, when there is one\<close>
  "cell t b k = (case map_of t b of None \<Rightarrow> None | Some row \<Rightarrow> row k)"

definition result_cell :: "error + table \<Rightarrow> string \<Rightarrow> string \<Rightarrow> pyval option" where
  "result_cell r b k = (case r of Inl e \<Rightarrow> None | Inr t \<Rightarrow> cell t b k)"

definition row_of :: "table \<Rightarrow> string \<Rightarrow> metricset" where
  \<comment> \<open>the row of \<open>b\<close>, empty when there is none\<close>
  "row_of t b = (case map_of t b of None \<Rightarrow> Map.empty | Some row \<Rightarrow> row)"

definition ipc_of :: "string \<Rightarrow> error + pyval" where
  \<comment> \<open>the instructions per cycle of a report\<close>
  "ipc_of l =
     (if parse_cycles l \<noteq> 0
      then bind_err (py_truediv (parse_retired_instructions l) (parse_cycles l))
             (\<lambda>x. Inr (PyFloat x))
      else Inr (PyInt 0))"

definition metrics :: "string \<Rightarrow> pyval \<Rightarrow> (string \<times> pyval) list" where
  \<comment> \<open>the fourteen entries of the row of a report\<close>
  "metrics l ipc =
     [(''status'', PyBool (parse_status l = 0)),
      (''instructions'', PyInt (parse_retired_instructions l)),
      (''cycles'', PyInt (parse_cycles l)),
      (''ipc'', ipc),
      (''jumps'', PyInt (parse_jumps l)),
      (''branches'', PyInt (parse_branches l)),
      (''branch/jump'', PyInt (parse_jumps l + parse_branches l)),
      (''loads'', PyInt (parse_loads l)),
      (''stores'', PyInt (parse_stores l)),
      (''load/store'', PyInt (parse_loads l + parse_stores l)),
      (''instr_fetches'', PyInt (parse_inst_fetches l)),
      (''read_req'', PyInt (parse_reads l)),
      (''write_req'', PyInt (parse_writes l)),
      (''memory_req'', PyInt (parse_inst_fetches l + parse_writes l + parse_reads l))]"

definition int_at :: "metricset \<Rightarrow> string \<Rightarrow> int option" where
  \<comment> \<open>the entry \<open>k\<close> of a row, when it is an \<open>int\<close>\<close>
  "int_at r k = (case r k of Some (PyInt i) \<Rightarrow> Some i | _ \<Rightarrow> None)"

definition sums_hold :: "metricset \<Rightarrow> bool" where
  \<comment> \<open>the three derived totals of a row are the sums of their parts\<close>
  "sums_hold r =
     ((case (int_at r ''instr_fetches'', int_at r ''read_req'', int_at r ''write_req'') of
         (Some f, Some rd, Some w) \<Rightarrow> int_at r ''memory_req'' = Some (f + rd + w)
       | _ \<Rightarrow> False) \<and>
      (case (int_at r ''jumps'', int_at r ''branches'') of
         (Some j, Some br) \<Rightarrow> int_at r ''branch/jump'' = Some (j + br)
       | _ \<Rightarrow> False) \<and>
      (case (int_at r ''loads'', int_at r ''stores'') of
         (Some ld, Some st) \<Rightarrow> int_at r ''load/store'' = Some (ld + st)
       | _ \<Rightarrow> False))"

definition start_run :: run where
  \<comment> \<open>the state of the script when its loop starts\<close>
  "start_run = \<lparr>stats = init_table, correctly_ex = 0,
                 console = ''Benchmark summary:'' @ [CHR 0x0A]\<rparr>"

definition sample_log :: string where
  \<comment> \<open>a small simulator log, for the examples\<close>
  "sample_log =
     ''len5 simulation'' @ [CHR 0x0A] @
     ''Program exit with code: 0x0 (OK)'' @ [CHR 0x0A] @
     ''retired instructions: 1000'' @ [CHR 0x0A] @
     ''total CPU cycles: 500'' @ [CHR 0x0A] @
     ''- jumps: 5 (0.5%)'' @ [CHR 0x0A] @
     ''- branches: 7 (0.7%)'' @ [CHR 0x0A] @
     ''- loads: 11 (1.1%)'' @ [CHR 0x0A] @
     ''- stores: 13 (1.3%)'' @ [CHR 0x0A] @
     ''- instruction fetches: 17 (1.7%)'' @ [CHR 0x0A] @
     ''- write requests: 19 (1.9%)'' @ [CHR 0x0A] @
     ''- read requests: 23 (2.3%)'' @ [CHR 0x0A]"

definition ipc_text :: "pyval \<Rightarrow> string" where
  \<comment> \<open>the instructions per cycle as the script prints them\<close>
  "ipc_text v = (case format_2f v of Inr s \<Rightarrow> s | Inl e \<Rightarrow> [])"

definition row :: "string \<Rightarrow> metricset" where
  \<comment> \<open>the row of a report in a fresh table\<close>
  "row l = (case ipc_of l of Inr ipc \<Rightarrow> map_of (metrics l ipc) | Inl e \<Rightarrow> Map.empty)"

definition extracted :: "(string \<times> string) list \<Rightarrow> bool" where
  \<comment> \<open>the extraction completes on every file: no division overflows\<close>
  "extracted files = list_all (\<lambda>(b, c). ipc_of (report c) \<noteq> Inl OverflowError) files"

definition ident :: "string \<Rightarrow> string" where
  \<comment> \<open>a file name without its last four characters\<close>
  "ident b = take (length b - 4) b"

definition passed :: "string \<Rightarrow> bool" where
  \<comment> \<open>the status of a log\<close>
  "passed c = (parse_status (report c) = 0)"




definition ipc_consistent :: "metricset \<Rightarrow> bool" where
  \<comment> \<open>the \<open>ipc\<close> entry of a row is the \<open>int\<close> 0 when the cycles are 0, and the quotient
      of instructions and cycles otherwise\<close>
  "ipc_consistent r =
     (case (int_at r ''instructions'', int_at r ''cycles'') of
        (Some i, Some c) \<Rightarrow>
          if c = 0 then r ''ipc'' = Some (PyInt 0)
          else (case py_truediv i c of
                  Inr x \<Rightarrow> r ''ipc'' = Some (PyFloat x)
                | Inl e \<Rightarrow> False)
      | _ \<Rightarrow> False)"




definition fail_log :: string where
  \<comment> \<open>the log of a benchmark that exits with code 1\<close>
  "fail_log = ''Program exit with code: 0x1 (FAIL)'' @ [CHR 0x0A]"



definition two_runs :: "(string \<times> string) list" where
  \<comment> \<open>a run directory of two logs: the first passes, the second fails\<close>
  "two_runs =
     [(''fib.log'', ''Program exit with code: 0x0 (OK)'' @ [CHR 0x0A]),
      (''crc32.log'', fail_log)]"

section \<open>Searching a string\<close>

lemma find_first_le: "find_first sub s = Some k \<Longrightarrow> k \<le> length s"
  by (induction s arbitrary: k) (auto split: if_splits)

lemma find_first_None: "find_first sub s = None \<longleftrightarrow> (\<forall>k \<le> length s. \<not> prefix sub (drop k s))"
proof (induction s)
  case Nil
  then show ?case by auto
next
  case (Cons c cs)
  show ?case
  proof
    assume h: "find_first sub (c # cs) = None"
    then have np: "\<not> prefix sub (c # cs)" and r: "find_first sub cs = None"
      by (auto split: if_splits)
    show "\<forall>k \<le> length (c # cs). \<not> prefix sub (drop k (c # cs))"
    proof (intro allI impI)
      fix k assume "k \<le> length (c # cs)"
      then show "\<not> prefix sub (drop k (c # cs))"
        using np r Cons.IH by (cases k) auto
    qed
  next
    assume h: "\<forall>k \<le> length (c # cs). \<not> prefix sub (drop k (c # cs))"
    then have np: "\<not> prefix sub (c # cs)" by (metis drop0 le0)
    have "\<forall>k \<le> length cs. \<not> prefix sub (drop k cs)"
    proof (intro allI impI)
      fix k assume "k \<le> length cs"
      then have "Suc k \<le> length (c # cs)" by simp
      with h have "\<not> prefix sub (drop (Suc k) (c # cs))" by blast
      then show "\<not> prefix sub (drop k cs)" by simp
    qed
    with Cons.IH np show "find_first sub (c # cs) = None" by simp
  qed
qed

lemma find_first_Some:
  "find_first sub s = Some k \<longleftrightarrow>
     k \<le> length s \<and> prefix sub (drop k s) \<and> (\<forall>j < k. \<not> prefix sub (drop j s))"
proof (induction s arbitrary: k)
  case Nil
  then show ?case by auto
next
  case (Cons c cs)
  show ?case
  proof (cases "prefix sub (c # cs)")
    case True
    then show ?thesis by (cases k) auto
  next
    case False
    show ?thesis
    proof (cases k)
      case 0
      with False show ?thesis by simp
    next
      case (Suc k')
      have "(\<forall>j < Suc k'. \<not> prefix sub (drop j (c # cs))) \<longleftrightarrow> (\<forall>j < k'. \<not> prefix sub (drop j cs))"
      proof
        assume a: "\<forall>j < Suc k'. \<not> prefix sub (drop j (c # cs))"
        show "\<forall>j < k'. \<not> prefix sub (drop j cs)"
        proof (intro allI impI)
          fix j assume "j < k'"
          then have "Suc j < Suc k'" by simp
          with a have "\<not> prefix sub (drop (Suc j) (c # cs))" by blast
          then show "\<not> prefix sub (drop j cs)" by simp
        qed
      next
        assume a: "\<forall>j < k'. \<not> prefix sub (drop j cs)"
        show "\<forall>j < Suc k'. \<not> prefix sub (drop j (c # cs))"
        proof (intro allI impI)
          fix j assume "j < Suc k'"
          then show "\<not> prefix sub (drop j (c # cs))"
            using a False by (cases j) auto
        qed
      qed
      with False Suc Cons.IH [of k'] show ?thesis by auto
    qed
  qed
qed

lemma absent_iff: "absent sub s \<longleftrightarrow> (\<forall>k \<le> length s. \<not> prefix sub (drop k s))"
  by (auto simp: absent_def occurs_at_def list_all_iff less_Suc_eq_le)

lemma first_at_iff:
  "first_at sub s k \<longleftrightarrow>
     k \<le> length s \<and> prefix sub (drop k s) \<and> (\<forall>j < k. \<not> prefix sub (drop j s))"
  by (auto simp: first_at_def occurs_at_def list_all_iff)

lemma find_first_absent: "find_first sub s = None \<longleftrightarrow> absent sub s"
  by (simp add: find_first_None absent_iff)

lemma find_first_first_at: "find_first sub s = Some k \<longleftrightarrow> first_at sub s k"
  by (simp add: find_first_Some first_at_iff)

lemma py_find_absent: "absent sub s \<Longrightarrow> py_find s sub 0 = - 1"
  by (simp add: py_find_def find_first_absent [symmetric])

lemma py_find_first_at: "first_at sub s k \<Longrightarrow> py_find s sub 0 = int k"
  by (simp add: py_find_def find_first_first_at [symmetric])

lemma py_find_from_absent:
  "n \<le> length s \<Longrightarrow> absent sub (drop n s) \<Longrightarrow> py_find s sub n = - 1"
  by (simp add: py_find_def find_first_absent [symmetric])

lemma py_find_from_first_at:
  "n \<le> length s \<Longrightarrow> first_at sub (drop n s) j \<Longrightarrow> py_find s sub n = int (n + j)"
  by (simp add: py_find_def find_first_first_at [symmetric])

lemma py_find_cases:
  "py_find s sub 0 = - 1 \<and> absent sub s \<or> (\<exists>k. py_find s sub 0 = int k \<and> first_at sub s k)"
proof (cases "find_first sub s")
  case None
  then show ?thesis by (simp add: py_find_def find_first_absent [symmetric])
next
  case (Some k)
  then show ?thesis by (simp add: py_find_def find_first_first_at [symmetric])
qed

section \<open>The extractors\<close>

lemma first_at_bound: "first_at m s k \<Longrightarrow> k + length m \<le> length s"
proof -
  assume "first_at m s k"
  then have k: "k \<le> length s" and p: "prefix m (drop k s)" by (auto simp: first_at_iff)
  from p have "length m \<le> length (drop k s)" by (rule prefix_length_le)
  with k show ?thesis by simp
qed

lemma py_slice_nat: "a + j \<le> length s \<Longrightarrow> py_slice s (int a) (int (a + j)) = take j (drop a s)"
  by (simp add: py_slice_def py_index_def Let_def nat_int_add)

lemma py_slice_minus_one: "a \<le> length s \<Longrightarrow> py_slice s (int a) (- 1) = butlast (drop a s)"
  by (simp add: py_slice_def py_index_def Let_def butlast_conv_take nat_diff_distrib' diff_commute)

lemma parse_number_absent: "absent m s \<Longrightarrow> parse_number m t b d s = d"
  by (simp add: parse_number_def py_find_absent)

lemma parse_number_terminated:
  assumes "first_at m s k" and "first_at t (drop (k + length m) s) j"
  shows "parse_number m t b d s = number_or b d (take j (drop (k + length m) s))"
proof -
  have le: "k + length m \<le> length s" using assms(1) by (rule first_at_bound)
  have f1: "py_find s m 0 = int k" using assms(1) by (rule py_find_first_at)
  have f2: "py_find s t (k + length m) = int (k + length m + j)"
    using le assms(2) by (rule py_find_from_first_at)
  have "j \<le> length (drop (k + length m) s)" using assms(2) by (simp add: first_at_iff)
  with le have "k + length m + j \<le> length s" by simp
  then have sl: "py_slice s (int (k + length m)) (int (k + length m + j)) = take j (drop (k + length m) s)"
    by (rule py_slice_nat)
  have n: "nat (int k + int (length m)) = k + length m" by simp
  show ?thesis
    unfolding parse_number_def Let_def f1 n f2 number_or_def
    using sl by (simp add: of_nat_add [symmetric] del: of_nat_add)
qed

lemma parse_number_unterminated:
  assumes "first_at m s k" and "absent t (drop (k + length m) s)"
  shows "parse_number m t b d s = number_or b d (butlast (drop (k + length m) s))"
proof -
  have le: "k + length m \<le> length s" using assms(1) by (rule first_at_bound)
  have f1: "py_find s m 0 = int k" using assms(1) by (rule py_find_first_at)
  have f2: "py_find s t (k + length m) = - 1"
    using le assms(2) by (rule py_find_from_absent)
  have sl: "py_slice s (int (k + length m)) (- 1) = butlast (drop (k + length m) s)"
    using le by (rule py_slice_minus_one)
  have n: "nat (int k + int (length m)) = k + length m" by simp
  show ?thesis
    unfolding parse_number_def Let_def f1 n f2 number_or_def
    using sl by (simp add: of_nat_add [symmetric] del: of_nat_add)
qed

lemma extract_metric_eq:
  "extract_metric m s =
     parse_number (metric_marker m) (metric_terminator m) (metric_base m) (metric_default m) s"
  by (cases m)
     (simp_all add: parse_status_def parse_retired_instructions_def parse_cycles_def
        parse_jumps_def parse_branches_def parse_loads_def parse_stores_def
        parse_inst_fetches_def parse_writes_def parse_reads_def)

section \<open>The results table\<close>

lemma map_of_table_put_same: "map_of (table_put t b r) b = Some r"
  by (induction t) auto

lemma map_of_table_put_other: "b' \<noteq> b \<Longrightarrow> map_of (table_put t b r) b' = map_of t b'"
  by (induction t) auto

lemma table_put_twice: "table_put (table_put t b r) b r' = table_put t b r'"
  by (induction t) auto

lemma table_put_new: "b \<notin> set (map fst t) \<Longrightarrow> table_put t b r = t @ [(b, r)]"
  by (induction t) auto

lemma keys_table_put:
  "map fst (table_put t b r) = (if b \<in> set (map fst t) then map fst t else map fst t @ [b])"
  by (induction t) force+

lemma length_table_put:
  "length (table_put t b r) = (if b \<in> set (map fst t) then length t else Suc (length t))"
  by (induction t) force+

lemma in_keys_iff: "b \<in> set (map fst t) \<longleftrightarrow> map_of t b \<noteq> None"
  by (simp add: map_of_eq_None_iff)

lemma bind_err_simps [simp]:
  "bind_err (Inl e) f = Inl e"
  "bind_err (Inr x) f = f x"
  by (simp_all add: bind_err_def)

lemma fill_row_eq:
  fixes r :: metricset
  shows "r(''status'' \<mapsto> v1, ''instructions'' \<mapsto> v2, ''cycles'' \<mapsto> v3, ''ipc'' \<mapsto> v4,
       ''jumps'' \<mapsto> v5, ''branches'' \<mapsto> v6, ''branch/jump'' \<mapsto> v7, ''loads'' \<mapsto> v8,
       ''stores'' \<mapsto> v9, ''load/store'' \<mapsto> v10, ''instr_fetches'' \<mapsto> v11,
       ''read_req'' \<mapsto> v12, ''write_req'' \<mapsto> v13, ''memory_req'' \<mapsto> v14) =
     r ++ map_of [(''status'', v1), (''instructions'', v2), (''cycles'', v3), (''ipc'', v4),
       (''jumps'', v5), (''branches'', v6), (''branch/jump'', v7), (''loads'', v8),
       (''stores'', v9), (''load/store'', v10), (''instr_fetches'', v11),
       (''read_req'', v12), (''write_req'', v13), (''memory_req'', v14)]"
  by (rule ext) (simp add: map_add_def)

lemma fill_metrics_eq:
  "fill_metrics r l = bind_err (ipc_of l) (\<lambda>ipc. Inr (r ++ map_of (metrics l ipc)))"
proof (cases "parse_cycles l = 0")
  case True
  then show ?thesis
    unfolding fill_metrics_def Let_def ipc_of_def metrics_def
    by (simp add: row_get_def truthy_def py_add_def fill_row_eq del: map_of.simps)
next
  case False
  show ?thesis
  proof (cases "py_truediv (parse_retired_instructions l) (parse_cycles l)")
    case (Inl e)
    with False show ?thesis
      unfolding fill_metrics_def Let_def ipc_of_def metrics_def
      by (simp add: row_get_def truthy_def py_add_def py_div_def)
  next
    case (Inr x)
    with False show ?thesis
      unfolding fill_metrics_def Let_def ipc_of_def metrics_def
      by (simp add: row_get_def truthy_def py_add_def py_div_def fill_row_eq del: map_of.simps)
  qed
qed

lemma update_table_eq:
  "update_table t b l =
     bind_err (ipc_of l) (\<lambda>ipc. Inr (table_put t b (row_of t b ++ map_of (metrics l ipc))))"
proof (cases "map_of t b")
  case None
  then have "b \<notin> set (map fst t)" by (metis in_keys_iff)
  with None show ?thesis
    by (cases "ipc_of l")
       (simp_all add: update_table_def Let_def table_get_def map_of_table_put_same
          fill_metrics_eq table_put_twice row_of_def del: map_of.simps)
next
  case (Some r)
  then have "b \<in> set (map fst t)" by (metis in_keys_iff option.distinct(1))
  with Some show ?thesis
    by (cases "ipc_of l")
       (simp_all add: update_table_def Let_def table_get_def fill_metrics_eq row_of_def
          del: map_of.simps)
qed

lemma py_truediv_result:
  "b \<noteq> 0 \<Longrightarrow> py_truediv a b = Inl OverflowError \<or> (\<exists>x. py_truediv a b = Inr x)"
  by (simp add: py_truediv_def Let_def)

lemma py_truediv_zero: "py_truediv a b = Inl ZeroDivisionError \<longleftrightarrow> b = 0"
  by (simp add: py_truediv_def Let_def)

lemma ipc_of_result: "ipc_of l = Inl OverflowError \<or> (\<exists>v. ipc_of l = Inr v)"
proof (cases "parse_cycles l = 0")
  case True
  then show ?thesis by (simp add: ipc_of_def)
next
  case False
  with py_truediv_result [of "parse_cycles l" "parse_retired_instructions l"]
  show ?thesis by (auto simp: ipc_of_def)
qed

lemma update_table_Inr:
  "update_table t b l = Inr t' \<longleftrightarrow>
     (\<exists>ipc. ipc_of l = Inr ipc \<and> t' = table_put t b (row_of t b ++ map_of (metrics l ipc)))"
  by (cases "ipc_of l") (auto simp: update_table_eq)

lemma update_table_Inl: "update_table t b l = Inl e \<longleftrightarrow> ipc_of l = Inl e"
  by (cases "ipc_of l") (auto simp: update_table_eq)

lemma cell_table_put_same: "cell (table_put t b r) b k = r k"
  by (simp add: cell_def map_of_table_put_same)

lemma cell_table_put_other: "b' \<noteq> b \<Longrightarrow> cell (table_put t b r) b' k = cell t b' k"
  by (simp add: cell_def map_of_table_put_other)

lemma dom_metrics:
  "dom (map_of (metrics l ipc)) =
     {''status'', ''instructions'', ''cycles'', ''ipc'', ''jumps'', ''branches'', ''branch/jump'',
      ''loads'', ''stores'', ''load/store'', ''instr_fetches'', ''read_req'', ''write_req'',
      ''memory_req''}"
  by (simp add: metrics_def dom_map_of_conv_image_fst)

lemma map_add_cover: "dom m1 \<subseteq> dom m2 \<Longrightarrow> m1 ++ m2 = m2"
  by (rule ext) (auto simp: map_add_def split: option.splits)

lemma metrics_override:
  "(r ++ map_of (metrics l1 ipc1)) ++ map_of (metrics l2 ipc2) = r ++ map_of (metrics l2 ipc2)"
proof -
  have "map_of (metrics l1 ipc1) ++ map_of (metrics l2 ipc2) = map_of (metrics l2 ipc2)"
    by (rule map_add_cover) (simp only: dom_metrics subset_refl)
  then show ?thesis by (metis map_add_assoc)
qed

lemma row_of_table_put: "row_of (table_put t b r) b = r"
  by (simp add: row_of_def map_of_table_put_same)

lemma metrics_lookup:
  "(r ++ map_of (metrics l ipc)) ''status'' = Some (PyBool (parse_status l = 0))"
  "(r ++ map_of (metrics l ipc)) ''instructions'' = Some (PyInt (parse_retired_instructions l))"
  "(r ++ map_of (metrics l ipc)) ''cycles'' = Some (PyInt (parse_cycles l))"
  "(r ++ map_of (metrics l ipc)) ''ipc'' = Some ipc"
  "(r ++ map_of (metrics l ipc)) ''jumps'' = Some (PyInt (parse_jumps l))"
  "(r ++ map_of (metrics l ipc)) ''branches'' = Some (PyInt (parse_branches l))"
  "(r ++ map_of (metrics l ipc)) ''branch/jump'' = Some (PyInt (parse_jumps l + parse_branches l))"
  "(r ++ map_of (metrics l ipc)) ''loads'' = Some (PyInt (parse_loads l))"
  "(r ++ map_of (metrics l ipc)) ''stores'' = Some (PyInt (parse_stores l))"
  "(r ++ map_of (metrics l ipc)) ''load/store'' = Some (PyInt (parse_loads l + parse_stores l))"
  "(r ++ map_of (metrics l ipc)) ''instr_fetches'' = Some (PyInt (parse_inst_fetches l))"
  "(r ++ map_of (metrics l ipc)) ''read_req'' = Some (PyInt (parse_reads l))"
  "(r ++ map_of (metrics l ipc)) ''write_req'' = Some (PyInt (parse_writes l))"
  "(r ++ map_of (metrics l ipc)) ''memory_req'' =
     Some (PyInt (parse_inst_fetches l + parse_writes l + parse_reads l))"
  by (simp_all add: metrics_def map_add_def)

lemma sample_report:
  "report sample_log = drop 16 sample_log"
  by code_simp

lemma sample_values:
  "parse_status (report sample_log) = 0"
  "parse_retired_instructions (report sample_log) = 1000"
  "parse_cycles (report sample_log) = 500"
  "parse_jumps (report sample_log) = 5"
  "parse_branches (report sample_log) = 7"
  "parse_loads (report sample_log) = 11"
  "parse_stores (report sample_log) = 13"
  "parse_inst_fetches (report sample_log) = 17"
  "parse_writes (report sample_log) = 19"
  "parse_reads (report sample_log) = 23"
  by code_simp+

lemma sample_ipc: "ipc_of (report sample_log) = Inr (PyFloat (Dbl False 2))"
  by code_simp

lemma set_table_put: "set (table_put t b r) \<subseteq> insert (b, r) (set t)"
  by (induction t) (auto split: if_splits)

lemma sums_hold_metrics: "sums_hold (r ++ map_of (metrics l ipc))"
  by (simp add: sums_hold_def int_at_def metrics_lookup)

lemma update_table_rows:
  assumes "update_table t b l = Inr t'" and "(b', r') \<in> set t'"
  shows "(b', r') \<in> set t \<or>
         (b' = b \<and> (\<exists>ipc. ipc_of l = Inr ipc \<and> r' = row_of t b ++ map_of (metrics l ipc)))"
  using assms set_table_put [of t b] by (auto simp: update_table_Inr)

lemma loop_body_stats:
  "loop_body st i b c = Inr st' \<Longrightarrow> update_table (stats st) b (report c) = Inr (stats st')"
  by (cases "update_table (stats st) b (py_slice_from c (get_report_start c))")
     (auto simp: loop_body_def Let_def report_def bind_err_def split: sum.splits if_splits)

lemma main_loop_rows:
  assumes "main_loop st i files = Inr st'" and "(b, r) \<in> set (stats st')"
  shows "(b, r) \<in> set (stats st) \<or>
         (\<exists>c ipc r0. (b, c) \<in> set files \<and> ipc_of (report c) = Inr ipc \<and>
            r = r0 ++ map_of (metrics (report c) ipc))"
  using assms
proof (induction files arbitrary: st i)
  case Nil
  then show ?case by simp
next
  case (Cons f files)
  obtain b0 c0 where f: "f = (b0, c0)" by (cases f)
  from Cons.prems(1) f obtain st1 where
    s1: "loop_body st i b0 c0 = Inr st1" and s2: "main_loop st1 (i + 1) files = Inr st'"
    by (auto split: sum.splits)
  from Cons.IH [OF s2 Cons.prems(2)] show ?case
  proof
    assume "(b, r) \<in> set (stats st1)"
    with update_table_rows [OF loop_body_stats [OF s1]] f show ?thesis by fastforce
  next
    assume "\<exists>c ipc r0. (b, c) \<in> set files \<and> ipc_of (report c) = Inr ipc \<and>
              r = r0 ++ map_of (metrics (report c) ipc)"
    then show ?thesis by auto
  qed
qed

section \<open>The loop of the script\<close>

lemma format_2f_zero: "format_2f (PyInt 0) = Inr '' 0.00''"
  by code_simp

lemma ipc_of_shape:
  "ipc_of l = Inr v \<Longrightarrow> v = PyInt 0 \<or> (\<exists>x. v = PyFloat x)"
  by (auto simp: ipc_of_def bind_err_def split: if_splits sum.splits)

lemma ipc_of_format: "ipc_of l = Inr v \<Longrightarrow> format_2f v = Inr (ipc_text v)"
  using ipc_of_shape [of l v] by (auto simp: ipc_text_def format_2f_zero) (simp add: format_2f_def)

lemma ident_eq: "py_slice_to b (- 4) = ident b"
  by (simp add: py_slice_to_def py_index_def ident_def nat_diff_distrib')

lemma row_eq: "ipc_of l = Inr ipc \<Longrightarrow> row l = map_of (metrics l ipc)"
  by (simp add: row_def)

lemma loop_body_Inr:
  assumes "ipc_of (report c) = Inr ipc"
  shows "\<exists>n out. loop_body st i b c =
           Inr \<lparr>stats = table_put (stats st) b (row_of (stats st) b ++ row (report c)),
                correctly_ex = n, console = console st @ out\<rparr>"
proof -
  let ?R = "row_of (stats st) b ++ map_of (metrics (report c) ipc)"
  have u: "update_table (stats st) b (py_slice_from c (get_report_start c)) =
             Inr (table_put (stats st) b ?R)"
    using assms by (simp add: update_table_eq report_def [symmetric])
  have g: "table_get (table_put (stats st) b ?R) b = Inr ?R"
    by (simp add: table_get_def map_of_table_put_same)
  have f: "format_2f ipc = Inr (ipc_text ipc)" using assms by (rule ipc_of_format)
  have r: "row (report c) = map_of (metrics (report c) ipc)" using assms by (rule row_eq)
  show ?thesis
  proof (cases "parse_status (report c) = 0")
    case True
    then show ?thesis
      unfolding loop_body_def Let_def u r
      by (simp add: g row_get_def metrics_lookup f truthy_def)
  next
    case False
    then show ?thesis
      unfolding loop_body_def Let_def u r
      by (simp add: g row_get_def metrics_lookup f truthy_def)
  qed
qed

lemma loop_body_Inl: "ipc_of (report c) = Inl e \<Longrightarrow> loop_body st i b c = Inl e"
  by (simp add: loop_body_def Let_def update_table_eq report_def [symmetric])

lemma extracted_Cons:
  "extracted ((b, c) # files) \<longleftrightarrow> (\<exists>ipc. ipc_of (report c) = Inr ipc) \<and> extracted files"
  using ipc_of_result [of "report c"] by (auto simp: extracted_def)

lemma main_loop_table:
  assumes "extracted files" and "distinct (map fst files)"
    and "set (map fst files) \<inter> set (map fst (stats st)) = {}"
  shows "\<exists>n out. main_loop st i files =
           Inr \<lparr>stats = stats st @ map (\<lambda>(b, c). (b, row (report c))) files,
                correctly_ex = n, console = console st @ out\<rparr>"
  using assms
proof (induction files arbitrary: st i)
  case Nil
  show ?case by (intro exI [of _ "correctly_ex st"] exI [of _ "[]"]) simp
next
  case (Cons f files)
  obtain b c where f: "f = (b, c)" by (cases f)
  from Cons.prems(1) f obtain ipc where ipc: "ipc_of (report c) = Inr ipc" and ex: "extracted files"
    by (auto simp: extracted_Cons)
  from Cons.prems(3) f have new: "b \<notin> set (map fst (stats st))" by auto
  then have "map_of (stats st) b = None" by (metis in_keys_iff)
  then have r0: "row_of (stats st) b = Map.empty" by (simp add: row_of_def)
  from loop_body_Inr [OF ipc, of st i b] obtain n out where
    lb: "loop_body st i b c =
           Inr \<lparr>stats = stats st @ [(b, row (report c))], correctly_ex = n,
                console = console st @ out\<rparr>"
    using new by (auto simp: r0 table_put_new)
  let ?st1 = "\<lparr>stats = stats st @ [(b, row (report c))], correctly_ex = n,
               console = console st @ out\<rparr>"
  have d: "distinct (map fst files)" using Cons.prems(2) by simp
  have disj: "set (map fst files) \<inter> set (map fst (stats ?st1)) = {}"
    using Cons.prems(2,3) f by auto
  from Cons.IH [OF ex d disj, of "i + 1"] obtain n' out' where
    "main_loop ?st1 (i + 1) files =
       Inr \<lparr>stats = stats ?st1 @ map (\<lambda>(b, c). (b, row (report c))) files,
            correctly_ex = n', console = console ?st1 @ out'\<rparr>"
    by blast
  with lb f show ?case by simp
qed

lemma main_loop_start:
  assumes "extracted files" and "distinct (map fst files)"
  shows "\<exists>n out. main_loop start_run 0 files =
           Inr \<lparr>stats = map (\<lambda>(b, c). (b, row (report c))) files,
                correctly_ex = n, console = out\<rparr>"
  using main_loop_table [OF assms, of start_run 0] by (auto simp: start_run_def init_table_def)

section \<open>Derived totals and idempotence\<close>

lemma sample_update:
  "\<exists>t'. update_table init_table ''dhry.log'' (report sample_log) = Inr t'"
  by (simp add: update_table_Inr sample_ipc)

lemma sample_extracted: "extracted [(''dhry.log'', sample_log)]"
  by (simp add: extracted_def sample_ipc)

text \<open>
  C5. In every row of the results table the memory requests are the sum of instruction
  fetches, read requests and write requests, the branch/jump total is the sum of jumps and
  branches, and the load/store total is the sum of loads and stores: this holds of the row
  that \<open>update_table\<close> writes, and of every row of the table when the loop of the script
  has run.
\<close>

theorem derived_totals:
  "(update_table t b l = Inr t' \<longrightarrow> sums_hold (row_of t' b)) \<and>
   (main_loop start_run 0 files = Inr st \<longrightarrow> list_all (\<lambda>(b, r). sums_hold r) (stats st))"
proof (intro conjI impI)
  assume "update_table t b l = Inr t'"
  then show "sums_hold (row_of t' b)"
    by (auto simp: update_table_Inr row_of_table_put sums_hold_metrics)
next
  assume m: "main_loop start_run 0 files = Inr st"
  show "list_all (\<lambda>(b, r). sums_hold r) (stats st)"
    unfolding list_all_iff
  proof (intro ballI, clarify)
    fix b r assume "(b, r) \<in> set (stats st)"
    from main_loop_rows [OF m this] show "sums_hold r"
      by (auto simp: start_run_def init_table_def sums_hold_metrics)
  qed
qed

theorem derived_totals_witness:
  "\<exists>t' st. update_table init_table ''dhry.log'' (report sample_log) = Inr t' \<and>
      sums_hold (row_of t' ''dhry.log'') \<and>
      main_loop start_run 0 [(''dhry.log'', sample_log)] = Inr st \<and>
      list_all (\<lambda>(b, r). sums_hold r) (stats st)"
proof -
  from sample_update obtain t' where
    u: "update_table init_table ''dhry.log'' (report sample_log) = Inr t'" ..
  from main_loop_start [OF sample_extracted] obtain st where
    m: "main_loop start_run 0 [(''dhry.log'', sample_log)] = Inr st" by auto
  from derived_totals [of init_table "''dhry.log''" "report sample_log" t'
      "[(''dhry.log'', sample_log)]" st] u m
  show ?thesis by blast
qed

text \<open>
  C7. Aggregating is idempotent: running \<open>update_table\<close> again with the same benchmark
  and the same log text leaves the table as the first run made it; and a run with another
  log text replaces what the earlier run wrote for that benchmark, the result being the
  one the later log gives on the original table.
\<close>

theorem update_table_idempotent:
  "(update_table t b l = Inr t' \<longrightarrow> update_table t' b l = Inr t') \<and>
   (update_table t b l1 = Inr t1 \<longrightarrow> update_table t1 b l2 = update_table t b l2)"
proof (intro conjI impI)
  assume "update_table t b l = Inr t'"
  then obtain ipc where i: "ipc_of l = Inr ipc"
    and t': "t' = table_put t b (row_of t b ++ map_of (metrics l ipc))"
    by (auto simp: update_table_Inr)
  show "update_table t' b l = Inr t'"
    by (simp add: update_table_eq i t' row_of_table_put table_put_twice metrics_override)
next
  assume "update_table t b l1 = Inr t1"
  then obtain ipc where t1: "t1 = table_put t b (row_of t b ++ map_of (metrics l1 ipc))"
    by (auto simp: update_table_Inr)
  show "update_table t1 b l2 = update_table t b l2"
    by (simp add: update_table_eq t1 row_of_table_put table_put_twice metrics_override)
qed

theorem update_table_idempotent_witness:
  "\<exists>t'. update_table init_table ''dhry.log'' (report sample_log) = Inr t' \<and>
      update_table t' ''dhry.log'' (report sample_log) = Inr t' \<and>
      update_table t' ''dhry.log'' [] = update_table init_table ''dhry.log'' []"
proof -
  from sample_update obtain t' where
    u: "update_table init_table ''dhry.log'' (report sample_log) = Inr t'" ..
  from update_table_idempotent [of init_table "''dhry.log''" "report sample_log" t'
      "report sample_log" t' "[]"] u
  show ?thesis by blast
qed

section \<open>The report start\<close>


lemma get_report_start_absent: "absent status_marker c \<Longrightarrow> get_report_start c = 0"
  by (simp add: get_report_start_def Let_def py_find_absent status_marker_def)


lemma report_absent: "absent status_marker c \<Longrightarrow> report c = c"
  by (simp add: report_def get_report_start_absent py_slice_from_def py_index_def)



lemma cell_metric:
  "update_table t b l = Inr t' \<Longrightarrow>
     cell t' b (metric_key m) =
       Some (if m = Status then PyBool (extract_metric Status l = 0)
             else PyInt (extract_metric m l))"
  by (cases m) (auto simp: update_table_Inr cell_table_put_same metrics_lookup)



lemma absent_example: "absent status_marker ''total CPU cycles: 500''"
  by code_simp


section \<open>The exit status and unterminated values\<close>

lemma parse_status_eq: "parse_status s = parse_number status_marker ''('' 16 1 s"
  by (simp add: parse_status_def status_marker_def)

lemma length_status_marker: "length status_marker = 24"
  by (simp add: status_marker_def)

text \<open>
  C2. The exit status is the text between the first \<open>"Program exit with code: "\<close> and the
  next \<open>"("\<close>, trimmed of blanks and read as an integer in base 16; the \<open>status\<close> entry of
  the row is true exactly when that value is 0. When the marker is absent, or the text is
  no base-16 literal, the value is 1 and the status is false.
\<close>

theorem status_parsing:
  "(absent status_marker s1 \<longrightarrow> parse_status s1 = 1) \<and>
   (first_at status_marker s2 k \<and> first_at ''('' (drop (k + 24) s2) j \<longrightarrow>
      parse_status s2 =
        (case py_int 16 (py_strip (CHR '' '') (take j (drop (k + 24) s2))) of
           Some v \<Rightarrow> v | None \<Rightarrow> 1)) \<and>
   (update_table t b s3 = Inr t' \<longrightarrow>
      cell t' b ''status'' = Some (PyBool (parse_status s3 = 0)))"
proof (intro conjI impI)
  assume "absent status_marker s1"
  then show "parse_status s1 = 1" by (simp add: parse_status_eq parse_number_absent)
next
  assume "first_at status_marker s2 k \<and> first_at ''('' (drop (k + 24) s2) j"
  then show "parse_status s2 =
      (case py_int 16 (py_strip (CHR '' '') (take j (drop (k + 24) s2))) of
         Some v \<Rightarrow> v | None \<Rightarrow> 1)"
    using parse_number_terminated [of status_marker s2 k "''(''" j 16 1]
    by (simp add: parse_status_eq length_status_marker number_or_def)
next
  assume "update_table t b s3 = Inr t'"
  from cell_metric [OF this, of Status] show "cell t' b ''status'' = Some (PyBool (parse_status s3 = 0))"
    by simp
qed

lemma status_example:
  "first_at status_marker (drop 16 sample_log) 0"
  "first_at ''('' (drop 24 (drop 16 sample_log)) 4"
  "take 4 (drop 24 (drop 16 sample_log)) = ''0x0 ''"
  "py_int 16 (py_strip (CHR '' '') ''0x0 '') = Some 0"
  by code_simp+

theorem status_parsing_witness:
  "absent status_marker ''total CPU cycles: 500'' \<and>
   parse_status ''total CPU cycles: 500'' = 1 \<and>
   first_at status_marker (drop 16 sample_log) 0 \<and>
   first_at ''('' (drop (0 + 24) (drop 16 sample_log)) 4 \<and>
   parse_status (drop 16 sample_log) = 0 \<and>
   (\<exists>t'. update_table init_table ''dhry.log'' (report sample_log) = Inr t' \<and>
      cell t' ''dhry.log'' ''status'' = Some (PyBool True))"
proof -
  from sample_update obtain t' where
    u: "update_table init_table ''dhry.log'' (report sample_log) = Inr t'" ..
  from status_parsing [of "''total CPU cycles: 500''" "drop 16 sample_log" 0 4
      init_table "''dhry.log''" "report sample_log" t']
    absent_example status_example u sample_values(1)
  show ?thesis by auto
qed

text \<open>
  C10. When the marker of a metric is present and its terminator does not occur after
  it, the value is read from the text after the marker without its last character (the
  end index of the slice is -1). So a text whose last line is
  \<open>total CPU cycles: 500\<close> with no newline gives 50 cycles, and one whose last line is
  \<open>Program exit with code: 0\<close> with no parenthesis gives the status value 1, which is
  a false status.
\<close>

lemma unterminated_examples:
  "absent [CHR 0x0A] ''500''"
  "number_or 10 0 (butlast ''500'') = 50"
  "absent ''('' ''0''"
  "number_or 16 1 (butlast ''0'') = 1"
  by code_simp+

theorem unterminated_value:
  "(first_at (metric_marker m) s k \<and>
    absent (metric_terminator m) (drop (k + length (metric_marker m)) s) \<longrightarrow>
      extract_metric m s =
        (case py_int (metric_base m)
                (py_strip (CHR '' '') (butlast (drop (k + length (metric_marker m)) s))) of
           Some v \<Rightarrow> v | None \<Rightarrow> metric_default m)) \<and>
   (first_at ''total CPU cycles: '' s1 k1 \<and> drop k1 s1 = ''total CPU cycles: 500'' \<longrightarrow>
      parse_cycles s1 = 50) \<and>
   (first_at ''Program exit with code: '' s2 k2 \<and> drop k2 s2 = ''Program exit with code: 0'' \<longrightarrow>
      parse_status s2 = 1 \<and> \<not> parse_status s2 = 0)"
proof -
  have c1: "first_at (metric_marker m) s k \<and>
    absent (metric_terminator m) (drop (k + length (metric_marker m)) s) \<longrightarrow>
      extract_metric m s =
        (case py_int (metric_base m)
                (py_strip (CHR '' '') (butlast (drop (k + length (metric_marker m)) s))) of
           Some v \<Rightarrow> v | None \<Rightarrow> metric_default m)"
  proof
    assume "first_at (metric_marker m) s k \<and>
      absent (metric_terminator m) (drop (k + length (metric_marker m)) s)"
    then have f: "first_at (metric_marker m) s k"
      and a: "absent (metric_terminator m) (drop (k + length (metric_marker m)) s)" by simp_all
    show "extract_metric m s =
          (case py_int (metric_base m)
                  (py_strip (CHR '' '') (butlast (drop (k + length (metric_marker m)) s))) of
             Some v \<Rightarrow> v | None \<Rightarrow> metric_default m)"
      using parse_number_unterminated [OF f a]
      by (simp add: extract_metric_eq number_or_def)
  qed
  have c2: "first_at ''total CPU cycles: '' s1 k1 \<and> drop k1 s1 = ''total CPU cycles: 500'' \<longrightarrow>
      parse_cycles s1 = 50"
  proof
    assume "first_at ''total CPU cycles: '' s1 k1 \<and> drop k1 s1 = ''total CPU cycles: 500''"
    then have f: "first_at ''total CPU cycles: '' s1 k1"
      and e: "drop k1 s1 = ''total CPU cycles: 500''" by simp_all
    have len: "length ''total CPU cycles: '' = 18" by simp
    have "drop (k1 + 18) s1 = drop 18 (drop k1 s1)" by (simp add: add.commute)
    with e have d: "drop (k1 + 18) s1 = ''500''" by simp
    have "absent [CHR 0x0A] (drop (k1 + length ''total CPU cycles: '') s1)"
      unfolding len d by (rule unterminated_examples)
    from parse_number_unterminated [OF f this, of 10 0] show "parse_cycles s1 = 50"
      unfolding len d parse_cycles_def by (simp only: unterminated_examples)
  qed
  have c3: "first_at ''Program exit with code: '' s2 k2 \<and>
      drop k2 s2 = ''Program exit with code: 0'' \<longrightarrow>
      parse_status s2 = 1 \<and> \<not> parse_status s2 = 0"
  proof
    assume "first_at ''Program exit with code: '' s2 k2 \<and>
      drop k2 s2 = ''Program exit with code: 0''"
    then have f: "first_at ''Program exit with code: '' s2 k2"
      and e: "drop k2 s2 = ''Program exit with code: 0''" by simp_all
    have len: "length ''Program exit with code: '' = 24" by simp
    have "drop (k2 + 24) s2 = drop 24 (drop k2 s2)" by (simp add: add.commute)
    with e have d: "drop (k2 + 24) s2 = ''0''" by simp
    have "absent ''('' (drop (k2 + length ''Program exit with code: '') s2)"
      unfolding len d by (rule unterminated_examples)
    from parse_number_unterminated [OF f this, of 16 1] have "parse_status s2 = 1"
      unfolding len d parse_status_def by (simp only: unterminated_examples)
    then show "parse_status s2 = 1 \<and> \<not> parse_status s2 = 0" by simp
  qed
  from c1 c2 c3 show ?thesis by (intro conjI)
qed

lemma unterminated_first_at:
  "first_at (metric_marker Jumps) ''- jumps: 42'' 0"
  "absent (metric_terminator Jumps) (drop (0 + length (metric_marker Jumps)) ''- jumps: 42'')"
  "extract_metric Jumps ''- jumps: 42'' = 4"
  "first_at ''total CPU cycles: '' (''x'' @ [CHR 0x0A] @ ''total CPU cycles: 500'') 2"
  "first_at ''Program exit with code: '' ''Program exit with code: 0'' 0"
  by code_simp+

theorem unterminated_value_witness:
  "first_at (metric_marker Jumps) ''- jumps: 42'' 0 \<and>
   absent (metric_terminator Jumps) (drop (0 + length (metric_marker Jumps)) ''- jumps: 42'') \<and>
   extract_metric Jumps ''- jumps: 42'' = 4 \<and>
   first_at ''total CPU cycles: '' (''x'' @ [CHR 0x0A] @ ''total CPU cycles: 500'') 2 \<and>
   parse_cycles (''x'' @ [CHR 0x0A] @ ''total CPU cycles: 500'') = 50 \<and>
   first_at ''Program exit with code: '' ''Program exit with code: 0'' 0 \<and>
   parse_status ''Program exit with code: 0'' = 1"
  using unterminated_value [of Jumps "''- jumps: 42''" 0
      "''x'' @ [CHR 0x0A] @ ''total CPU cycles: 500''" 2 "''Program exit with code: 0''" 0]
    unterminated_first_at
  by simp

section \<open>Defaults of the extractors\<close>

lemma metric_default_eq: "metric_default m = (if m = Status then 1 else 0)"
  by (cases m) simp_all

lemma counterexample_values:
  "absent status_marker (''total CPU cycles: 500'' @ [CHR 0x0A])"
  "ipc_of (''total CPU cycles: 500'' @ [CHR 0x0A]) = Inr (PyFloat (Dbl False 0))"
  "parse_cycles (''total CPU cycles: 500'' @ [CHR 0x0A]) = 500"
  by code_simp+

text \<open>
  C3, as stated, fails: a log without the exit-status marker is searched as a whole, so a
  counter whose own marker is present is still read. The log
  \<open>"total CPU cycles: 500\n"\<close> has no exit-status marker and its row has 500 cycles.
\<close>

theorem defaults_counterexample:
  "absent status_marker (''total CPU cycles: 500'' @ [CHR 0x0A]) \<and>
   result_cell
     (update_table init_table ''a.log'' (report (''total CPU cycles: 500'' @ [CHR 0x0A])))
     ''a.log'' ''cycles'' = Some (PyInt 500) \<and>
   result_cell
     (update_table init_table ''a.log'' (report (''total CPU cycles: 500'' @ [CHR 0x0A])))
     ''a.log'' ''cycles'' \<noteq> Some (PyInt 0)"
proof -
  have r: "report (''total CPU cycles: 500'' @ [CHR 0x0A]) = ''total CPU cycles: 500'' @ [CHR 0x0A]"
    using counterexample_values(1) by (rule report_absent)
  show ?thesis
    unfolding r
    by (simp add: counterexample_values update_table_eq result_cell_def cell_table_put_same
        metrics_lookup del: append.simps)
qed

text \<open>
  C3, amended. For every metric: when its marker is not found, or when the text between
  the marker and the terminator, trimmed of blanks, is no integer literal of the metric's
  base, the extractor returns the default of the metric, which is 1 for the status and 0
  for each of the nine counters. For a log without the exit-status marker the extractors
  see the whole log: the status of its row is false, and every counter whose own marker is
  absent from the log is 0 in its row.
\<close>

theorem defaults:
  "(absent (metric_marker m) s \<longrightarrow> extract_metric m s = metric_default m) \<and>
   (first_at (metric_marker m1) s1 k \<and>
    first_at (metric_terminator m1) (drop (k + length (metric_marker m1)) s1) j \<and>
    py_int (metric_base m1)
      (py_strip (CHR '' '') (take j (drop (k + length (metric_marker m1)) s1))) = None \<longrightarrow>
      extract_metric m1 s1 = metric_default m1) \<and>
   metric_default m2 = (if m2 = Status then 1 else 0) \<and>
   (absent status_marker c \<and> update_table t b (report c) = Inr t' \<longrightarrow>
      report c = c \<and> cell t' b ''status'' = Some (PyBool False) \<and>
      (m3 \<noteq> Status \<and> absent (metric_marker m3) c \<longrightarrow>
         cell t' b (metric_key m3) = Some (PyInt 0)))"
proof -
  have c1: "absent (metric_marker m) s \<longrightarrow> extract_metric m s = metric_default m"
    by (simp add: extract_metric_eq parse_number_absent)
  have c2: "first_at (metric_marker m1) s1 k \<and>
    first_at (metric_terminator m1) (drop (k + length (metric_marker m1)) s1) j \<and>
    py_int (metric_base m1)
      (py_strip (CHR '' '') (take j (drop (k + length (metric_marker m1)) s1))) = None \<longrightarrow>
      extract_metric m1 s1 = metric_default m1"
  proof
    assume a: "first_at (metric_marker m1) s1 k \<and>
      first_at (metric_terminator m1) (drop (k + length (metric_marker m1)) s1) j \<and>
      py_int (metric_base m1)
        (py_strip (CHR '' '') (take j (drop (k + length (metric_marker m1)) s1))) = None"
    then have f: "first_at (metric_marker m1) s1 k"
      and g: "first_at (metric_terminator m1) (drop (k + length (metric_marker m1)) s1) j"
      by simp_all
    from parse_number_terminated [OF f g] a show "extract_metric m1 s1 = metric_default m1"
      by (simp add: extract_metric_eq number_or_def)
  qed
  have c3: "metric_default m2 = (if m2 = Status then 1 else 0)" by (rule metric_default_eq)
  have c4: "absent status_marker c \<and> update_table t b (report c) = Inr t' \<longrightarrow>
      report c = c \<and> cell t' b ''status'' = Some (PyBool False) \<and>
      (m3 \<noteq> Status \<and> absent (metric_marker m3) c \<longrightarrow>
         cell t' b (metric_key m3) = Some (PyInt 0))"
  proof
    assume "absent status_marker c \<and> update_table t b (report c) = Inr t'"
    then have a: "absent status_marker c" and u: "update_table t b (report c) = Inr t'"
      by simp_all
    have r: "report c = c" using a by (rule report_absent)
    have st: "parse_status c = 1" using a by (simp add: parse_status_eq parse_number_absent)
    have s: "cell t' b ''status'' = Some (PyBool False)"
      using cell_metric [OF u, of Status] by (simp add: r st)
    have m: "m3 \<noteq> Status \<and> absent (metric_marker m3) c \<longrightarrow>
         cell t' b (metric_key m3) = Some (PyInt 0)"
    proof
      assume "m3 \<noteq> Status \<and> absent (metric_marker m3) c"
      then have n: "m3 \<noteq> Status" and ab: "absent (metric_marker m3) c" by simp_all
      have "extract_metric m3 c = 0"
        using ab n by (simp add: extract_metric_eq parse_number_absent metric_default_eq)
      with cell_metric [OF u, of m3] n show "cell t' b (metric_key m3) = Some (PyInt 0)"
        by (simp add: r)
    qed
    from r s m show "report c = c \<and> cell t' b ''status'' = Some (PyBool False) \<and>
      (m3 \<noteq> Status \<and> absent (metric_marker m3) c \<longrightarrow>
         cell t' b (metric_key m3) = Some (PyInt 0))" by (intro conjI)
  qed
  from c1 c2 c3 c4 show ?thesis by (intro conjI)
qed

lemma defaults_examples:
  "absent (metric_marker Loads) ''- stores: 3 (1%)''"
  "first_at (metric_marker Stores) ''- stores: many (1%)'' 0"
  "first_at (metric_terminator Stores) (drop (0 + length (metric_marker Stores)) ''- stores: many (1%)'') 6"
  "py_int (metric_base Stores)
     (py_strip (CHR '' '') (take 6 (drop (0 + length (metric_marker Stores)) ''- stores: many (1%)''))) = None"
  "absent (metric_marker Jumps) (''total CPU cycles: 500'' @ [CHR 0x0A])"
  by code_simp+

theorem defaults_witness:
  "absent (metric_marker Loads) ''- stores: 3 (1%)'' \<and>
   extract_metric Loads ''- stores: 3 (1%)'' = 0 \<and>
   first_at (metric_marker Stores) ''- stores: many (1%)'' 0 \<and>
   extract_metric Stores ''- stores: many (1%)'' = 0 \<and>
   absent status_marker (''total CPU cycles: 500'' @ [CHR 0x0A]) \<and>
   (\<exists>t'. update_table init_table ''a.log'' (report (''total CPU cycles: 500'' @ [CHR 0x0A])) = Inr t' \<and>
      cell t' ''a.log'' ''status'' = Some (PyBool False) \<and>
      cell t' ''a.log'' ''jumps'' = Some (PyInt 0))"
proof -
  let ?c = "''total CPU cycles: 500'' @ [CHR 0x0A]"
  have r: "report ?c = ?c" using counterexample_values(1) by (rule report_absent)
  have "\<exists>t'. update_table init_table ''a.log'' (report ?c) = Inr t'"
    unfolding r by (simp add: update_table_Inr counterexample_values del: append.simps)
  then obtain t' where u: "update_table init_table ''a.log'' (report ?c) = Inr t'" ..
  from defaults [of Loads "''- stores: 3 (1%)''" Stores "''- stores: many (1%)''" 0 6 Status
      ?c init_table "''a.log''" t' Jumps]
    defaults_examples counterexample_values(1) u
  show ?thesis by (auto simp del: append.simps)
qed

section \<open>Instructions per cycle\<close>

lemma ipc_consistent_metrics:
  "ipc_of l = Inr ipc \<Longrightarrow> ipc_consistent (r ++ map_of (metrics l ipc))"
  by (auto simp: ipc_consistent_def int_at_def metrics_lookup ipc_of_def bind_err_def
      split: if_splits sum.splits)

lemma loop_body_error: "loop_body st i b c = Inl e \<Longrightarrow> e = OverflowError"
proof -
  assume a: "loop_body st i b c = Inl e"
  from ipc_of_result [of "report c"] show ?thesis
  proof
    assume "ipc_of (report c) = Inl OverflowError"
    from loop_body_Inl [OF this, of st i b] a show ?thesis by simp
  next
    assume "\<exists>v. ipc_of (report c) = Inr v"
    then obtain v where "ipc_of (report c) = Inr v" ..
    from loop_body_Inr [OF this, of st i b] a show ?thesis by auto
  qed
qed

lemma main_loop_error: "main_loop st i files = Inl e \<Longrightarrow> e = OverflowError"
proof (induction files arbitrary: st i)
  case Nil
  then show ?case by simp
next
  case (Cons f files)
  obtain b c where f: "f = (b, c)" by (cases f)
  show ?case
  proof (cases "loop_body st i b c")
    case (Inl e')
    with Cons.prems f have "e' = e" by simp
    with Inl show ?thesis by (auto dest: loop_body_error)
  next
    case (Inr st1)
    with Cons.prems f have "main_loop st1 (i + 1) files = Inl e" by simp
    then show ?thesis by (rule Cons.IH)
  qed
qed

text \<open>
  C4. In every row, when the cycles are 0 the \<open>ipc\<close> entry is exactly 0, and otherwise
  it is the result of dividing the instructions by the cycles. No step divides by zero:
  neither \<open>update_table\<close> nor the loop of the script raises \<open>ZeroDivisionError\<close>, and
  \<open>update_table\<close> returns a table whenever the cycles are 0.
\<close>

theorem ipc_guard:
  "update_table t b l \<noteq> Inl ZeroDivisionError \<and>
   main_loop start_run 0 files \<noteq> Inl ZeroDivisionError \<and>
   (parse_cycles l1 = 0 \<longrightarrow>
      (\<exists>t'. update_table t1 b1 l1 = Inr t' \<and> cell t' b1 ''cycles'' = Some (PyInt 0) \<and>
         cell t' b1 ''ipc'' = Some (PyInt 0))) \<and>
   (update_table t2 b2 l2 = Inr t2' \<longrightarrow> ipc_consistent (row_of t2' b2)) \<and>
   (main_loop start_run 0 files3 = Inr st \<longrightarrow>
      list_all (\<lambda>(b, r). ipc_consistent r) (stats st))"
proof -
  have c1: "update_table t b l \<noteq> Inl ZeroDivisionError"
    using ipc_of_result [of l] by (auto simp: update_table_Inl)
  have c2: "main_loop start_run 0 files \<noteq> Inl ZeroDivisionError"
    by (auto dest: main_loop_error)
  have c3: "parse_cycles l1 = 0 \<longrightarrow>
      (\<exists>t'. update_table t1 b1 l1 = Inr t' \<and> cell t' b1 ''cycles'' = Some (PyInt 0) \<and>
         cell t' b1 ''ipc'' = Some (PyInt 0))"
  proof
    assume z: "parse_cycles l1 = 0"
    then have "ipc_of l1 = Inr (PyInt 0)" by (simp add: ipc_of_def)
    then show "\<exists>t'. update_table t1 b1 l1 = Inr t' \<and> cell t' b1 ''cycles'' = Some (PyInt 0) \<and>
         cell t' b1 ''ipc'' = Some (PyInt 0)"
      using z by (simp add: update_table_eq cell_table_put_same metrics_lookup)
  qed
  have c4: "update_table t2 b2 l2 = Inr t2' \<longrightarrow> ipc_consistent (row_of t2' b2)"
    by (auto simp: update_table_Inr row_of_table_put ipc_consistent_metrics)
  have c5: "main_loop start_run 0 files3 = Inr st \<longrightarrow>
      list_all (\<lambda>(b, r). ipc_consistent r) (stats st)"
  proof
    assume m: "main_loop start_run 0 files3 = Inr st"
    show "list_all (\<lambda>(b, r). ipc_consistent r) (stats st)"
      unfolding list_all_iff
    proof (intro ballI, clarify)
      fix b r assume "(b, r) \<in> set (stats st)"
      from main_loop_rows [OF m this] show "ipc_consistent r"
        by (auto simp: start_run_def init_table_def ipc_consistent_metrics)
    qed
  qed
  from c1 c2 c3 c4 c5 show ?thesis by (intro conjI)
qed

lemma ipc_examples:
  "parse_cycles [] = 0"
  "py_truediv 1000 500 = Inr (Dbl False 2)"
  by code_simp+

theorem ipc_guard_witness:
  "parse_cycles [] = 0 \<and>
   (\<exists>t'. update_table init_table ''a.log'' [] = Inr t' \<and>
      cell t' ''a.log'' ''cycles'' = Some (PyInt 0) \<and> cell t' ''a.log'' ''ipc'' = Some (PyInt 0)) \<and>
   (\<exists>t' st. update_table init_table ''dhry.log'' (report sample_log) = Inr t' \<and>
      ipc_consistent (row_of t' ''dhry.log'') \<and>
      cell t' ''dhry.log'' ''ipc'' = Some (PyFloat (Dbl False 2)) \<and>
      main_loop start_run 0 [(''dhry.log'', sample_log)] = Inr st \<and>
      list_all (\<lambda>(b, r). ipc_consistent r) (stats st))"
proof -
  from sample_update obtain t' where
    u: "update_table init_table ''dhry.log'' (report sample_log) = Inr t'" ..
  from main_loop_start [OF sample_extracted] obtain st where
    m: "main_loop start_run 0 [(''dhry.log'', sample_log)] = Inr st" by auto
  have i: "cell t' ''dhry.log'' ''ipc'' = Some (PyFloat (Dbl False 2))"
    using u by (auto simp: update_table_Inr sample_ipc cell_table_put_same metrics_lookup)
  from ipc_guard [of init_table "''a.log''" "[]" "[]" "[]" init_table "''a.log''"
      init_table "''dhry.log''" "report sample_log" t' "[(''dhry.log'', sample_log)]" st]
    ipc_examples(1) u m i
  show ?thesis by blast
qed

section \<open>The script as a whole\<close>














lemma main_loop_overflow:
  "\<not> extracted files \<Longrightarrow> main_loop st i files = Inl OverflowError"
proof (induction files arbitrary: st i)
  case Nil
  then show ?case by (simp add: extracted_def)
next
  case (Cons f files)
  obtain b c where f: "f = (b, c)" by (cases f)
  from ipc_of_result [of "report c"] show ?case
  proof
    assume "ipc_of (report c) = Inl OverflowError"
    from loop_body_Inl [OF this, of st i b] show ?thesis by (simp add: f)
  next
    assume "\<exists>v. ipc_of (report c) = Inr v"
    then obtain v where v: "ipc_of (report c) = Inr v" ..
    with Cons.prems f have "\<not> extracted files" by (simp add: extracted_def)
    from Cons.IH [OF this] loop_body_Inr [OF v, of st i b] show ?thesis by (auto simp: f)
  qed
qed

lemma main_overflow: "\<not> extracted files \<Longrightarrow> main PATH files = Inl OverflowError"
  by (simp add: main_def main_loop_overflow)

section \<open>The shape of the printed numbers\<close>






section \<open>The gating check\<close>




lemma ident_split: "b = ident b @ drop (length b - 4) b"
  by (simp add: ident_def)












section \<open>The CSV file\<close>





section \<open>The console summary\<close>

lemma loop_body_console:
  assumes "ipc_of (report c) = Inr ipc"
  shows "\<exists>st'. loop_body st i b c = Inr st' \<and>
     correctly_ex st' = (if passed c then correctly_ex st + 1 else correctly_ex st) \<and>
     console st' =
       console st @ format_d 4 (if passed c then i + 1 else i) @ '') '' @
       format_s 15 (ident b) @ '': '' @ [CHR 0x1B] @
       (if passed c then ''[92mSUCCESS'' else ''[91mFAILURE'') @ [CHR 0x1B] @
       ''[00m (IPC='' @ ipc_text ipc @ '')'' @ [CHR 0x0A]"
proof -
  let ?R = "row_of (stats st) b ++ map_of (metrics (report c) ipc)"
  have u: "update_table (stats st) b (py_slice_from c (get_report_start c)) =
             Inr (table_put (stats st) b ?R)"
    using assms by (simp add: update_table_eq report_def [symmetric])
  have g: "table_get (table_put (stats st) b ?R) b = Inr ?R"
    by (simp add: table_get_def map_of_table_put_same)
  have f: "format_2f ipc = Inr (ipc_text ipc)" using assms by (rule ipc_of_format)
  show ?thesis
    unfolding loop_body_def Let_def u
    by (simp add: g row_get_def metrics_lookup f truthy_def passed_def ident_eq)
qed

text \<open>
  C8. The console summary numbers a line of a passing benchmark with its position in the
  listing counted from 1, and a line of a failing benchmark with its position counted
  from 0. In a run of two logs of which the first passes and the second fails, both
  lines carry the number 1; the last line of the summary counts one passing benchmark out
  of two.
\<close>

theorem console_summary_example:
  "main ''run'' two_runs =
     Inr \<lparr>exit_code = 1,
          stdout =
            ''Benchmark summary:'' @ [CHR 0x0A] @
            ''   1) fib            : '' @ [CHR 0x1B] @ ''[92mSUCCESS'' @ [CHR 0x1B] @
              ''[00m (IPC= 0.00)'' @ [CHR 0x0A] @
            ''   1) crc32          : '' @ [CHR 0x1B] @ ''[91mFAILURE'' @ [CHR 0x1B] @
              ''[00m (IPC= 0.00)'' @ [CHR 0x0A] @
            ''Correctly executed testbenches 1 out of 2.'' @ [CHR 0x0A] @
            [CHR 0x1B] @ ''[91mFailed tests: crc32.'' @ [CHR 0x1B] @ ''[00m'' @ [CHR 0x0A],
          csv_file = None\<rparr>"
  by code_simp

section \<open>The accuracy of the division\<close>

lemma round_half_even_div_near:
  assumes "0 < d"
  shows "2 * \<bar>round_half_even_div n d * d - n\<bar> \<le> d"
proof -
  define r where "r = n mod d"
  have r: "0 \<le> r" "r < d" using assms by (simp_all add: r_def)
  have q: "(n div d) * d = n - r" by (simp add: r_def minus_mod_eq_div_mult)
  have q1: "(n div d + 1) * d = n - r + d" using q by (simp add: algebra_simps)
  show ?thesis
    unfolding round_half_even_div_def Let_def r_def [symmetric]
    using r by (simp add: q q1)
qed

lemma quot_exponent_lower:
  assumes "0 < n" and "0 < d"
  shows "(if 0 \<le> quot_exponent n d then d * 2 ^ nat (quot_exponent n d) \<le> n
          else d \<le> n * 2 ^ nat (- quot_exponent n d))"
proof -
  define k where "k = bitlen n - bitlen d"
  define c where "c = (if 0 \<le> k then d * 2 ^ nat k \<le> n else d \<le> n * 2 ^ nat (- k))"
  have e: "quot_exponent n d = (if c then k else k - 1)"
    by (simp add: quot_exponent_def Let_def k_def c_def)
  show ?thesis
  proof (cases c)
    case True
    then show ?thesis unfolding e by (simp add: c_def split: if_splits)
  next
    case False
    have bn: "2 ^ nat (bitlen n - 1) \<le> n" using bitlen_bounds [OF assms(1)] by simp
    have bd: "d < 2 ^ nat (bitlen d)" using bitlen_bounds [OF assms(2)] by simp
    have pn: "1 \<le> bitlen n" using assms(1) by (simp add: bitlen_alt_def)
    have pd: "0 \<le> bitlen d" by (rule bitlen_nonneg)
    show ?thesis
    proof (cases "1 \<le> k")
      case True
      have "nat (bitlen d) + nat (k - 1) = nat (bitlen n - 1)"
        using True pd by (simp add: k_def nat_add_distrib [symmetric])
      then have "(2::int) ^ nat (bitlen d) * 2 ^ nat (k - 1) = 2 ^ nat (bitlen n - 1)"
        by (simp add: power_add [symmetric])
      moreover have "d * 2 ^ nat (k - 1) \<le> 2 ^ nat (bitlen d) * 2 ^ nat (k - 1)"
        using bd by (intro mult_right_mono) simp_all
      ultimately have "d * 2 ^ nat (k - 1) \<le> n" using bn by linarith
      with False True show ?thesis unfolding e by simp
    next
      case k: False
      have "nat (bitlen n - 1) + nat (1 - k) = nat (bitlen d)"
        using k pn pd by (simp add: k_def nat_add_distrib [symmetric])
      then have "(2::int) ^ nat (bitlen n - 1) * 2 ^ nat (1 - k) = 2 ^ nat (bitlen d)"
        by (simp add: power_add [symmetric])
      moreover have "2 ^ nat (bitlen n - 1) * 2 ^ nat (1 - k) \<le> n * 2 ^ nat (1 - k)"
        using bn by (intro mult_right_mono) simp_all
      ultimately have "d \<le> n * 2 ^ nat (1 - k)" using bd by linarith
      with False k show ?thesis unfolding e by simp
    qed
  qed
qed

lemma frac_near_up:
  fixes M N D P :: rat
  assumes "0 < D" and "2 * \<bar>M * (D * P) - N\<bar> \<le> D * P"
  shows "\<bar>M * P - N / D\<bar> \<le> P / 2"
proof -
  have "M * P - N / D = (M * (D * P) - N) / D" using assms(1) by (simp add: field_simps)
  then have "\<bar>M * P - N / D\<bar> = \<bar>M * (D * P) - N\<bar> / D"
    using assms(1) by (simp add: abs_divide)
  also have "\<dots> \<le> (D * P / 2) / D"
    using assms by (intro divide_right_mono) simp_all
  also have "\<dots> = P / 2" using assms(1) by simp
  finally show ?thesis .
qed

lemma frac_near_down:
  fixes M N D P :: rat
  assumes "0 < D" and "0 < P" and "2 * \<bar>M * D - N * P\<bar> \<le> D"
  shows "\<bar>M / P - N / D\<bar> \<le> 1 / (2 * P)"
proof -
  have "M / P - N / D = (M * D - N * P) / (P * D)" using assms(1,2) by (simp add: field_simps)
  then have "\<bar>M / P - N / D\<bar> = \<bar>M * D - N * P\<bar> / (P * D)"
    using assms(1,2) by (simp add: abs_divide abs_mult)
  also have "\<dots> \<le> (D / 2) / (P * D)"
    using assms by (intro divide_right_mono) simp_all
  also have "\<dots> = 1 / (2 * P)" using assms(1,2) by simp
  finally show ?thesis .
qed

lemma py_truediv_accuracy_pos:
  assumes n: "0 < n" and d: "0 < d"
  defines "e \<equiv> quot_exponent n d"
  defines "s \<equiv> max e (- 1022) - 52"
  defines "m \<equiv> (if 0 \<le> s then round_half_even_div n (d * 2 ^ nat s)
                  else round_half_even_div (n * 2 ^ nat (- s)) d)"
  defines "X \<equiv> (if 0 \<le> s then (of_int (m * 2 ^ nat s) :: rat)
                  else of_int m / of_int (2 ^ nat (- s)))"
  shows "\<bar>X - of_int n / of_int d\<bar> \<le> max (of_int n / of_int d / 2 ^ 53) (1 / 2 ^ 1075)"
proof -
  let ?N = "of_int n :: rat" and ?D = "of_int d :: rat"
  have N: "0 < ?N" and D: "0 < ?D" using n d by simp_all
  have low: "if 0 \<le> e then d * 2 ^ nat e \<le> n else d \<le> n * 2 ^ nat (- e)"
    unfolding e_def using n d by (rule quot_exponent_lower)
  show ?thesis
  proof (cases "0 \<le> s")
    case True
    then have e52: "e = s + 52" and e0: "0 \<le> e" by (auto simp: s_def)
    define P where "P = (2::int) ^ nat s"
    have P: "0 < P" by (simp add: P_def)
    have m: "m = round_half_even_div n (d * P)" using True by (simp add: m_def P_def)
    have "0 < d * P" using d P by simp
    from round_half_even_div_near [OF this, of n]
    have "2 * \<bar>m * (d * P) - n\<bar> \<le> d * P" by (simp add: m)
    then have "(of_int (2 * \<bar>m * (d * P) - n\<bar>) :: rat) \<le> of_int (d * P)"
      by (simp only: of_int_le_iff)
    then have "2 * \<bar>of_int m * (?D * of_int P) - ?N\<bar> \<le> ?D * of_int P" by simp
    from frac_near_up [OF D this] have near: "\<bar>of_int m * of_int P - ?N / ?D\<bar> \<le> of_int P / 2" .
    have "nat e = nat s + 52" using True e52 by (simp add: nat_add_distrib)
    then have "(2::int) ^ nat e = P * 2 ^ 52" by (simp add: P_def power_add)
    with low e0 have "d * (P * 2 ^ 52) \<le> n" by simp
    then have "(of_int (d * (P * 2 ^ 52)) :: rat) \<le> of_int n" by (simp only: of_int_le_iff)
    then have "?D * (of_int P * 2 ^ 52) \<le> ?N" by simp
    then have "of_int P * 2 ^ 52 \<le> ?N / ?D" using D by (simp add: field_simps)
    then have "of_int P / 2 \<le> ?N / ?D / 2 ^ 53" by (simp add: field_simps)
    with near have "\<bar>of_int m * of_int P - ?N / ?D\<bar> \<le> ?N / ?D / 2 ^ 53" by linarith
    moreover have "X = of_int m * of_int P" using True by (simp add: X_def P_def)
    ultimately show ?thesis by (simp add: max_def)
  next
    case False
    define P where "P = (2::int) ^ nat (- s)"
    have P: "0 < P" by (simp add: P_def)
    have m: "m = round_half_even_div (n * P) d" using False by (simp add: m_def P_def)
    from round_half_even_div_near [OF d, of "n * P"]
    have "2 * \<bar>m * d - n * P\<bar> \<le> d" by (simp add: m)
    then have "(of_int (2 * \<bar>m * d - n * P\<bar>) :: rat) \<le> of_int d"
      by (simp only: of_int_le_iff)
    then have "2 * \<bar>of_int m * ?D - ?N * of_int P\<bar> \<le> ?D" by simp
    from frac_near_down [OF D _ this] P
    have near: "\<bar>of_int m / of_int P - ?N / ?D\<bar> \<le> 1 / (2 * of_int P)" by simp
    have X: "X = of_int m / of_int P" using False by (simp add: X_def P_def)
    show ?thesis
    proof (cases "- 1022 \<le> e")
      case True
      then have s: "s = e - 52" by (simp add: s_def)
      have "(2::int) ^ 52 * d \<le> P * n"
      proof (cases "0 \<le> e")
        case True
        have "nat (- s) + nat e = 52" using True False s by simp
        then have "P * 2 ^ nat e = 2 ^ 52" by (simp add: P_def power_add [symmetric])
        then have "d * (P * 2 ^ nat e) = d * 2 ^ 52" by (simp only:)
        then have "P * (d * 2 ^ nat e) = 2 ^ 52 * d" by (simp only: mult.left_commute mult.commute)
        moreover from low True have "P * (d * 2 ^ nat e) \<le> P * n"
          using P by (intro mult_left_mono) simp_all
        ultimately show ?thesis by (simp only:)
      next
        case e: False
        have "nat (- s) = 52 + nat (- e)" using e s by simp
        then have p: "P = 2 ^ 52 * 2 ^ nat (- e)" by (simp add: P_def power_add)
        from low e have "(2::int) ^ 52 * d \<le> 2 ^ 52 * (n * 2 ^ nat (- e))"
          by (intro mult_left_mono) simp_all
        then show ?thesis by (simp add: p algebra_simps)
      qed
      then have "(of_int (2 ^ 52 * d) :: rat) \<le> of_int (P * n)" by (simp only: of_int_le_iff)
      then have "2 ^ 52 * ?D \<le> of_int P * ?N" by simp
      then have "1 / (2 * of_int P) \<le> ?N / ?D / 2 ^ 53" using D P by (simp add: field_simps)
      with near X show ?thesis by (simp add: max_def)
    next
      case e: False
      then have "s = - 1074" by (simp add: s_def)
      then have "P = 2 ^ 1074" by (simp add: P_def)
      then have "1 / (2 * (of_int P :: rat)) = 1 / 2 ^ Suc 1074" by simp
      then have "1 / (2 * (of_int P :: rat)) = 1 / 2 ^ 1075" by (simp only: eval_nat_numeral)
      with near X show ?thesis by (simp add: max_def del: power_numeral)
    qed
  qed
qed

end
